theory Spec2Isabelle
  imports Complex_Main "HOL-Library.Word"
begin

unbundle bit_operations_syntax

section \<open>JavaScript values and the Buffer reads used by the handlers\<close>

text \<open>
  The applications decode BLE characteristic values with the \<open>buffer\<close> package:
  \<open>Buffer.from(char.value, "base64")\<close> is a byte array, \<open>data[i]\<close> is the byte at
  index \<open>i\<close> or \<open>undefined\<close> beyond the end, and \<open>readUInt16LE(offset)\<close> and
  \<open>readUInt32LE(offset)\<close> throw a RangeError when \<open>offset + 2\<close> (or \<open>offset + 4\<close>)
  exceeds the length. A JavaScript number that may be \<open>undefined\<close> is a \<open>jsnum\<close>.
\<close>

type_synonym byte = "8 word"

datatype js_error = RangeError

datatype jsnum = Undefined | Number int

definition index :: "byte list \<Rightarrow> nat \<Rightarrow> jsnum" where
  "index data i = (if i < length data then Number (uint (data ! i)) else Undefined)"

text \<open>\<open>this[offset] | (this[offset + 1] << 8)\<close>, after the bounds check.\<close>

definition readUInt16LE :: "byte list \<Rightarrow> nat \<Rightarrow> js_error + int" where
  "readUInt16LE data offset =
     (if offset + 2 > length data then Inl RangeError
      else Inr (uint ((ucast (data ! offset) :: 32 word)
                      OR push_bit 8 (ucast (data ! (offset + 1))))))"

text \<open>
  \<open>((this[offset]) | (this[offset + 1] << 8) | (this[offset + 2] << 16)) +
  (this[offset + 3] * 0x1000000)\<close>, after the bounds check.
\<close>

definition readUInt32LE :: "byte list \<Rightarrow> nat \<Rightarrow> js_error + int" where
  "readUInt32LE data offset =
     (if offset + 4 > length data then Inl RangeError
      else Inr (uint (((ucast (data ! offset) :: 32 word)
                       OR push_bit 8 (ucast (data ! (offset + 1))))
                      OR push_bit 16 (ucast (data ! (offset + 2))))
                + uint (data ! (offset + 3)) * 0x1000000))"

text \<open>\<open>x & mask\<close>: both operands go through ToInt32, the result is a signed 32-bit value.\<close>

definition js_and :: "int \<Rightarrow> int \<Rightarrow> int" where
  "js_and x y = sint ((word_of_int x :: 32 word) AND word_of_int y)"

text \<open>Comparisons with \<open>undefined\<close> are false (it converts to NaN).\<close>

fun js_gt :: "jsnum \<Rightarrow> int \<Rightarrow> bool" where
  "js_gt (Number n) k = (n > k)"
| "js_gt Undefined k = False"

fun js_lt :: "jsnum \<Rightarrow> int \<Rightarrow> bool" where
  "js_lt (Number n) k = (n < k)"
| "js_lt Undefined k = False"

text \<open>\<open>prev.slice(-k)\<close>: the last \<open>k\<close> elements, all of them when there are fewer.\<close>

definition slice_last :: "nat \<Rightarrow> 'a list \<Rightarrow> 'a list" where
  "slice_last k xs = drop (length xs - k) xs"

section \<open>Heart-rate decoding\<close>

text \<open>
  part_000, lines 116-118 (the same three lines are in part_001, lines 141-143):
  \<open>const flags = data[0]; const is16Bit = flags & 0x01;
  const bpm = is16Bit ? data.readUInt16LE(1) : data[1];\<close>
  On an empty buffer \<open>flags\<close> is \<open>undefined\<close> and \<open>undefined & 0x01\<close> is \<open>0\<close>.
\<close>

definition is16Bit :: "byte list \<Rightarrow> int" where
  "is16Bit data = (case index data 0 of Undefined \<Rightarrow> 0 | Number flags \<Rightarrow> js_and flags 0x01)"

definition decodeHeartRate_part000 :: "byte list \<Rightarrow> js_error + jsnum" where
  "decodeHeartRate_part000 data =
     (if is16Bit data \<noteq> 0
      then (case readUInt16LE data 1 of Inl e \<Rightarrow> Inl e | Inr v \<Rightarrow> Inr (Number v))
      else Inr (index data 1))"

text \<open>
  "weekly reset" variant, line 218 (the same line is in part_002, line 154, and in the
  "add weekly total" variant, line 193):
  \<open>let bpm = data.length >= 2 ? (data[0] === 0x16 ? data.readUInt16LE(1) : data[1]) : data[1];\<close>
\<close>

definition decodeHeartRate_weeklyReset :: "byte list \<Rightarrow> js_error + jsnum" where
  "decodeHeartRate_weeklyReset data =
     (if length data \<ge> 2
      then (if index data 0 = Number 0x16
            then (case readUInt16LE data 1 of Inl e \<Rightarrow> Inl e | Inr v \<Rightarrow> Inr (Number v))
            else Inr (index data 1))
      else Inr (index data 1))"

section \<open>JavaScript arithmetic on numbers\<close>

text \<open>
  A JavaScript number is an IEEE-754 binary64 value; the finite ones are rationals.
  \<open>fl x\<close> is the binary64 value nearest to the rational \<open>x\<close>, ties to the even
  significand: the result of every arithmetic operation and of reading a decimal
  literal. It is written for the normal range \<open>2^-1022 \<le> \<bar>x\<bar> < 2^1024\<close>; the
  handlers below multiply a count below \<open>2^27\<close> by \<open>0.045\<close>, \<open>0.04\<close> or \<open>0.762\<close> and
  divide by \<open>1000\<close>, far inside it.
\<close>

fun bitlen :: "nat \<Rightarrow> nat" where
  "bitlen n = (if n = 0 then 0 else Suc (bitlen (n div 2)))"

declare bitlen.simps [simp del]

definition pow2 :: "int \<Rightarrow> rat" where
  "pow2 e = (if 0 \<le> e then 2 ^ nat e else 1 / 2 ^ nat (- e))"

text \<open>The exponent \<open>k\<close> with \<open>2^k \<le> a < 2^(k+1)\<close>, for \<open>a > 0\<close>.\<close>

definition binade :: "rat \<Rightarrow> int" where
  "binade a =
     (if 1 \<le> a then int (bitlen (nat \<lfloor>a\<rfloor>)) - 1
      else (let B = int (bitlen (nat \<lfloor>1 / a\<rfloor>))
            in if 1 / a = pow2 (B - 1) then - (B - 1) else - B))"

definition round_half_even :: "rat \<Rightarrow> int" where
  "round_half_even y =
     (let f = \<lfloor>y\<rfloor>; d = y - of_int f
      in if d < 1 / 2 then f else if 1 / 2 < d then f + 1
         else if even f then f else f + 1)"

definition fl :: "rat \<Rightarrow> rat" where
  "fl x =
     (if x = 0 then 0
      else (let a = \<bar>x\<bar>; e = binade a - 52
            in sgn x * of_int (round_half_even (a / pow2 e)) * pow2 e))"

definition js_mul :: "rat \<Rightarrow> rat \<Rightarrow> rat" where
  "js_mul x y = fl (x * y)"

definition js_div :: "rat \<Rightarrow> rat \<Rightarrow> rat" where
  "js_div x y = fl (x / y)"

definition Math_floor :: "rat \<Rightarrow> int" where
  "Math_floor x = \<lfloor>x\<rfloor>"

text \<open>
  \<open>parseFloat(x.toFixed(2))\<close> for \<open>x \<ge> 0\<close>: \<open>toFixed(2)\<close> takes the integer \<open>n\<close> for
  which \<open>n / 100 - x\<close> is closest to zero, the larger one of two, and prints \<open>n / 100\<close>
  with two decimals; \<open>parseFloat\<close> reads that decimal back. The number is recorded by
  its count \<open>n\<close> of hundredths: \<open>381\<close> is the number printed \<open>3.81\<close>.
\<close>

type_synonym hundredths = int

definition toFixed2 :: "rat \<Rightarrow> hundredths" where
  "toFixed2 x = \<lfloor>x * 100 + 1 / 2\<rfloor>"

text \<open>The decimal literals of the sources.\<close>

definition lit_0_045 :: rat where "lit_0_045 = fl (45 / 1000)"
definition lit_0_04 :: rat where "lit_0_04 = fl (4 / 100)"
definition lit_0_762 :: rat where "lit_0_762 = fl (762 / 1000)"

section \<open>Application state\<close>

text \<open>
  The React state of the "weekly reset" variant (lines 27-46), the resources a session
  registers in \<open>connectToDevice\<close> (the \<open>setInterval\<close> timer \<open>stepInterval\<close> and the
  characteristic monitor \<open>hrSubscription\<close>) and the AsyncStorage store. The earlier
  variants have a subset of these fields; their handlers leave the others alone.
\<close>

record daily =
  steps :: int
  avgHr :: jsnum
  calories :: int
  distance :: hundredths

record weekly =
  wsteps :: int
  wcalories :: int
  wdistance :: hundredths

text \<open>
  What \<open>JSON.stringify\<close> writes under \<open>STORAGE_KEY\<close>; a key that a variant does not
  write is \<open>None\<close>. \<open>JSON.parse\<close> of a stored blob gives the object back.
\<close>

record saved =
  s_dailyRecords :: daily
  s_hrHistory :: "jsnum list"
  s_hrFluctuations :: "(jsnum \<times> string) list option"
  s_weeklyStats :: "weekly option"

datatype stored = Text string | Json saved

record app =
  bandSteps :: int
  heartRate :: jsnum
  hrHistory :: "jsnum list"
  hrFluctuations :: "(jsnum \<times> string) list"
  dailyRecords :: daily
  weeklyStats :: weekly
  status :: string
  connectedDevice :: bool
  deviceRef :: bool
  stepInterval :: bool
  hrSubscription :: bool
  storage :: "string \<rightharpoonup> stored"

definition STORAGE_KEY :: string where "STORAGE_KEY = ''@health_data_v1''"
definition RESET_KEY :: string where "RESET_KEY = ''@last_weekly_reset''"
definition RESET_TRACKER_KEY :: string where "RESET_TRACKER_KEY = ''@last_reset_date''"

definition zeroDaily :: daily where
  "zeroDaily = \<lparr>steps = 0, avgHr = Number 0, calories = 0, distance = 0\<rparr>"

definition resetStats :: weekly where
  "resetStats = \<lparr>wsteps = 0, wcalories = 0, wdistance = 0\<rparr>"

text \<open>The \<open>useState\<close> defaults, nothing connected, nothing stored.\<close>

definition initialState :: app where
  "initialState =
     \<lparr>bandSteps = 0, heartRate = Number 0,
      hrHistory = [Number 0, Number 0, Number 0, Number 0, Number 0],
      hrFluctuations = [], dailyRecords = zeroDaily, weeklyStats = resetStats,
      status = ''Ready'', connectedDevice = False, deviceRef = False,
      stepInterval = False, hrSubscription = False, storage = Map.empty\<rparr>"

section \<open>Heart-rate notifications\<close>

text \<open>
  A notification is the monitor callback's \<open>(err, char)\<close>: whether \<open>err\<close> is set and
  the bytes of \<open>char.value\<close> when there is one. \<open>char?.value\<close> is falsy for a missing
  characteristic or value and for the empty string, the base64 of no bytes. An
  exception thrown by the decoding leaves the state as it was: the later variants catch
  and log it, part_000 lets it leave the callback before any setter has run.

  part_000, lines 113-122: no sanity filter.
\<close>

definition hrNotification_part000 :: "bool \<Rightarrow> byte list option \<Rightarrow> app \<Rightarrow> app" where
  "hrNotification_part000 err val st =
     (case val of
        None \<Rightarrow> st
      | Some data \<Rightarrow>
          if err \<or> data = [] then st
          else (case decodeHeartRate_part000 data of
                  Inl e \<Rightarrow> st
                | Inr bpm \<Rightarrow>
                    st\<lparr>heartRate := bpm,
                       hrHistory := slice_last 9 (hrHistory st) @ [bpm]\<rparr>))"

text \<open>part_002, lines 150-162.\<close>

definition hrNotification_part002 :: "bool \<Rightarrow> byte list option \<Rightarrow> app \<Rightarrow> app" where
  "hrNotification_part002 err val st =
     (case val of
        None \<Rightarrow> st
      | Some data \<Rightarrow>
          if data = [] then st
          else (case decodeHeartRate_weeklyReset data of
                  Inl e \<Rightarrow> st
                | Inr bpm \<Rightarrow>
                    if js_gt bpm 30 \<and> js_lt bpm 220
                    then st\<lparr>heartRate := bpm,
                            hrHistory := slice_last 9 (hrHistory st) @ [bpm],
                            dailyRecords := (dailyRecords st)\<lparr>avgHr := bpm\<rparr>\<rparr>
                    else st))"

text \<open>"weekly reset" variant, lines 213-228; \<open>timestamp\<close> is the clock's \<open>toLocaleTimeString\<close>.\<close>

definition hrNotification_weeklyReset ::
  "bool \<Rightarrow> byte list option \<Rightarrow> string \<Rightarrow> app \<Rightarrow> app" where
  "hrNotification_weeklyReset err val timestamp st =
     (if err then st
      else (case val of
              None \<Rightarrow> st
            | Some data \<Rightarrow>
                if data = [] then st
                else (case decodeHeartRate_weeklyReset data of
                        Inl e \<Rightarrow> st
                      | Inr bpm \<Rightarrow>
                          if js_gt bpm 30 \<and> js_lt bpm 220
                          then st\<lparr>heartRate := bpm,
                                  hrHistory := slice_last 9 (hrHistory st) @ [bpm],
                                  hrFluctuations :=
                                    slice_last 10 (hrFluctuations st) @ [(bpm, timestamp)],
                                  dailyRecords := (dailyRecords st)\<lparr>avgHr := bpm\<rparr>\<rparr>
                          else st)))"

section \<open>Step polls\<close>

text \<open>
  \<open>const count = data.length >= 4 ? (data.readUInt32LE(1) & 0x00FFFFFF) : 0;\<close>
  ("weekly reset" variant, line 244; part_002, line 179; "add weekly total", line 219).
\<close>

definition decodeStepCount :: "byte list \<Rightarrow> js_error + int" where
  "decodeStepCount data =
     (if length data \<ge> 4
      then (case readUInt32LE data 1 of
              Inl e \<Rightarrow> Inl e
            | Inr v \<Rightarrow> Inr (js_and v 0x00FFFFFF))
      else Inr 0)"

text \<open>
  \<open>const dist = parseFloat(((count * 0.762) / 1000).toFixed(2));\<close> and
  \<open>const cal = Math.floor(count * 0.045);\<close>; the "crash changes" variant, line 143, has
  \<open>Math.floor(count * 0.04)\<close>.
\<close>

definition dist_of :: "int \<Rightarrow> hundredths" where
  "dist_of count = toFixed2 (js_div (js_mul (of_int count) lit_0_762) 1000)"

definition cal_of :: "int \<Rightarrow> int" where
  "cal_of count = Math_floor (js_mul (of_int count) lit_0_045)"

definition cal_of_crashChanges :: "int \<Rightarrow> int" where
  "cal_of_crashChanges count = Math_floor (js_mul (of_int count) lit_0_04)"

text \<open>"add weekly total" variant, lines 92-99.\<close>

definition updateWeeklyStats_addWeeklyTotal :: "int \<Rightarrow> app \<Rightarrow> app" where
  "updateWeeklyStats_addWeeklyTotal currentSteps st =
     st\<lparr>weeklyStats :=
          \<lparr>wsteps = currentSteps, wcalories = cal_of currentSteps,
           wdistance = dist_of currentSteps\<rparr>\<rparr>"

text \<open>"weekly reset" variant, lines 100-109: \<open>const totalSteps = currentSteps * 7;\<close>.\<close>

definition updateWeeklyStats_weeklyReset :: "int \<Rightarrow> app \<Rightarrow> app" where
  "updateWeeklyStats_weeklyReset currentSteps st =
     (let totalSteps = currentSteps * 7
      in st\<lparr>weeklyStats :=
             \<lparr>wsteps = totalSteps, wcalories = cal_of totalSteps,
              wdistance = dist_of totalSteps\<rparr>\<rparr>)"

text \<open>
  What one tick of the poll timer meets: the answer of \<open>isConnected()\<close> and the outcome
  of the read of the step characteristic and of the alternative one, each a failure
  (a rejected promise) or a characteristic with its value.
\<close>

datatype read_result = Failed | Characteristic "byte list option"

record tick =
  isConnected :: bool
  primary :: read_result
  alternative :: read_result

text \<open>
  \<open>let char = await read(STEP...).catch(() => null);
  if (!char) char = await read(ALT_STEP...).catch(() => null);\<close> then \<open>char?.value\<close>:
  the bytes to decode, if any.
\<close>

definition readStepValue :: "tick \<Rightarrow> byte list option" where
  "readStepValue t =
     (case (case primary t of Failed \<Rightarrow> alternative t | Characteristic v \<Rightarrow> Characteristic v) of
        Failed \<Rightarrow> None
      | Characteristic None \<Rightarrow> None
      | Characteristic (Some data) \<Rightarrow> (if data = [] then None else Some data))"

text \<open>part_002, lines 165-188.\<close>

definition stepPoll_part002 :: "tick \<Rightarrow> app \<Rightarrow> app" where
  "stepPoll_part002 t st =
     (if \<not> deviceRef st then st
      else (case readStepValue t of
              None \<Rightarrow> st
            | Some data \<Rightarrow>
                (case decodeStepCount data of
                   Inl e \<Rightarrow> st
                 | Inr count \<Rightarrow>
                     if count > 0
                     then st\<lparr>bandSteps := count,
                             dailyRecords := (dailyRecords st)
                               \<lparr>steps := count, distance := dist_of count,
                                calories := cal_of count\<rparr>\<rparr>
                     else st)))"

text \<open>"add weekly total" variant, lines 209-229.\<close>

definition stepPoll_addWeeklyTotal :: "tick \<Rightarrow> app \<Rightarrow> app" where
  "stepPoll_addWeeklyTotal t st =
     (if \<not> deviceRef st then st
      else (case readStepValue t of
              None \<Rightarrow> st
            | Some data \<Rightarrow>
                (case decodeStepCount data of
                   Inl e \<Rightarrow> st
                 | Inr count \<Rightarrow>
                     if count > 0
                     then updateWeeklyStats_addWeeklyTotal count
                            (st\<lparr>bandSteps := count,
                                dailyRecords := (dailyRecords st)
                                  \<lparr>steps := count, distance := dist_of count,
                                   calories := cal_of count\<rparr>\<rparr>)
                     else st)))"

text \<open>"weekly reset" variant, lines 230-254.\<close>

definition stepPoll_weeklyReset :: "tick \<Rightarrow> app \<Rightarrow> app" where
  "stepPoll_weeklyReset t st =
     (if \<not> deviceRef st then st
      else if \<not> isConnected t then st
      else (case readStepValue t of
              None \<Rightarrow> st
            | Some data \<Rightarrow>
                (case decodeStepCount data of
                   Inl e \<Rightarrow> st
                 | Inr count \<Rightarrow>
                     if count > 0
                     then updateWeeklyStats_weeklyReset count
                            (st\<lparr>bandSteps := count,
                                dailyRecords := (dailyRecords st)
                                  \<lparr>steps := count, distance := dist_of count,
                                   calories := cal_of count\<rparr>\<rparr>)
                     else st)))"

text \<open>
  "crash changes" variant, lines 135-149: one read, whose failure is caught with the
  rest; \<open>if (data.length >= 4)\<close> guards the whole update and the count is not compared
  with zero.
\<close>

definition stepPoll_crashChanges :: "tick \<Rightarrow> app \<Rightarrow> app" where
  "stepPoll_crashChanges t st =
     (case primary t of
        Failed \<Rightarrow> st
      | Characteristic None \<Rightarrow> st
      | Characteristic (Some data) \<Rightarrow>
          if data = [] then st
          else if length data \<ge> 4
          then (case readUInt32LE data 1 of
                  Inl e \<Rightarrow> st
                | Inr v \<Rightarrow>
                    (let count = js_and v 0x00FFFFFF
                     in st\<lparr>bandSteps := count,
                            dailyRecords := (dailyRecords st)
                              \<lparr>steps := count, distance := dist_of count,
                               calories := cal_of_crashChanges count\<rparr>\<rparr>))
          else st)"

section \<open>Sessions: connecting, the two inbound channels, disconnecting\<close>

text \<open>
  \<open>connectToDevice\<close> ("weekly reset" variant, lines 204-267; part_002, lines 140-200):
  when \<open>connect\<close> and \<open>discoverAllServicesAndCharacteristics\<close> succeed, the reference and
  the status are set and the monitor, the poll timer and the disconnect listener are
  registered; when one of them throws, only the status changes.
\<close>

definition connectToDevice :: "bool \<Rightarrow> app \<Rightarrow> app" where
  "connectToDevice ok st =
     (if ok
      then st\<lparr>deviceRef := True, connectedDevice := True, status := ''Connected'',
              hrSubscription := True, stepInterval := True\<rparr>
      else st\<lparr>status := ''Failed''\<rparr>)"







section \<open>The weekly reset check\<close>

text \<open>What the check reads from \<open>new Date()\<close>: \<open>toDateString()\<close> and \<open>getDay()\<close>.\<close>

record clock =
  toDateString :: string
  getDay :: nat


text \<open>\<open>handleWeeklyReset\<close>, "add weekly total" variant, lines 53-72.\<close>

definition handleWeeklyReset :: "clock \<Rightarrow> app \<Rightarrow> app" where
  "handleWeeklyReset today st =
     (let isMonday = (getDay today = 1)
      in if isMonday
         then (let todayString = toDateString today;
                   lastReset = storage st RESET_TRACKER_KEY
               in if lastReset \<noteq> Some (Text todayString)
                  then st\<lparr>weeklyStats := resetStats, dailyRecords := zeroDaily,
                          bandSteps := 0,
                          storage := (storage st)(RESET_TRACKER_KEY \<mapsto> Text todayString)\<rparr>
                  else st)
         else st)"

section \<open>Automatic saving\<close>

text \<open>
  The effect that runs after a render in which \<open>dailyRecords\<close>, \<open>hrHistory\<close> (and, in
  the later variants, \<open>hrFluctuations\<close> or \<open>weeklyStats\<close>) changed:
  \<open>if (dailyRecords.steps > 0) saveData();\<close>. part_002, lines 69-77.
\<close>

definition autoSave_part002 :: "app \<Rightarrow> app" where
  "autoSave_part002 st =
     (if steps (dailyRecords st) > 0
      then st\<lparr>storage := (storage st)
                (STORAGE_KEY \<mapsto>
                   Json \<lparr>s_dailyRecords = dailyRecords st, s_hrHistory = hrHistory st,
                         s_hrFluctuations = None, s_weeklyStats = None\<rparr>)\<rparr>
      else st)"

text \<open>"weekly reset" variant, lines 119-127.\<close>

definition autoSave_weeklyReset :: "app \<Rightarrow> app" where
  "autoSave_weeklyReset st =
     (if steps (dailyRecords st) > 0
      then st\<lparr>storage := (storage st)
                (STORAGE_KEY \<mapsto>
                   Json \<lparr>s_dailyRecords = dailyRecords st, s_hrHistory = hrHistory st,
                         s_hrFluctuations = Some (hrFluctuations st),
                         s_weeklyStats = Some (weeklyStats st)\<rparr>)\<rparr>
      else st)"

text \<open>"add weekly total" variant, lines 109-117.\<close>

definition autoSave_addWeeklyTotal :: "app \<Rightarrow> app" where
  "autoSave_addWeeklyTotal st =
     (if steps (dailyRecords st) > 0
      then st\<lparr>storage := (storage st)
                (STORAGE_KEY \<mapsto>
                   Json \<lparr>s_dailyRecords = dailyRecords st, s_hrHistory = hrHistory st,
                         s_hrFluctuations = Some (hrFluctuations st),
                         s_weeklyStats = None\<rparr>)\<rparr>
      else st)"

section \<open>Concrete inputs\<close>

text \<open>A Monday, as the check reads it from the clock.\<close>

definition monday :: clock where
  "monday = \<lparr>toDateString = ''Mon Oct 23 2023'', getDay = 1\<rparr>"

text \<open>
  A poll tick on a live connection whose first read returns the given bytes, and a
  connected session with 1234 steps on record.
\<close>

definition tickWith :: "byte list \<Rightarrow> tick" where
  "tickWith data =
     \<lparr>isConnected = True, primary = Characteristic (Some data), alternative = Failed\<rparr>"

definition walked :: app where
  "walked =
     (connectToDevice True initialState)
       \<lparr>bandSteps := 1234,
        dailyRecords := \<lparr>steps = 1234, avgHr = Number 72, calories = 55, distance = 94\<rparr>\<rparr>"

text \<open>
  A heart-rate measurement in the 8-bit format: flags byte 0, then the value. For
  \<open>0 \<le> n < 256\<close> both decoders read it as \<open>n\<close>.
\<close>

definition bpmFrame :: "int \<Rightarrow> byte list" where
  "bpmFrame n = [0x00, word_of_int n]"

section \<open>Facts about the Buffer reads\<close>

lemma uint_ucast_byte: "uint (ucast (b :: byte) :: 32 word) = uint b"
  by (simp add: uint_up_ucast is_up)

lemma uint_byte_bounds: "0 \<le> uint (b :: byte)" "uint (b :: byte) < 256"
  using uint_bounded [of b] by simp_all

lemma le16_word:
  fixes a b :: byte
  shows "uint ((ucast a :: 32 word) OR push_bit 8 (ucast b)) = uint a + 256 * uint b"
proof -
  let ?lo = "ucast a :: 32 word"
  let ?hi = "ucast b :: 32 word"
  have disj: "?lo AND push_bit 8 ?hi = 0"
    by (rule bit_eqI) (auto simp: bit_simps dest: bit_imp_le_length)
  have "?lo OR push_bit 8 ?hi = ?lo + push_bit 8 ?hi"
    using disj by (simp add: disjunctive_add_eq_or [symmetric])
  then have "uint (?lo OR push_bit 8 ?hi) = uint (?lo + push_bit 8 ?hi)"
    by simp
  also have "\<dots> = (uint ?lo + uint ?hi * 256) mod 2 ^ 32"
    by (simp add: uint_word_ariths push_bit_eq_mult mod_simps)
  also have "\<dots> = (uint a + uint b * 256) mod 2 ^ 32"
    by (simp only: uint_ucast_byte)
  also have "\<dots> = uint a + uint b * 256"
    using uint_byte_bounds [of a] uint_byte_bounds [of b]
    by (intro mod_pos_pos_trivial) auto
  finally show ?thesis by simp
qed

lemma le24_word:
  fixes a b c :: byte
  shows "uint (((ucast a :: 32 word) OR push_bit 8 (ucast b)) OR push_bit 16 (ucast c))
         = uint a + 256 * uint b + 65536 * uint c"
proof -
  let ?lo = "(ucast a :: 32 word) OR push_bit 8 (ucast b)"
  let ?hi = "ucast c :: 32 word"
  have disj: "?lo AND push_bit 16 ?hi = 0"
    by (rule bit_eqI) (auto simp: bit_simps dest: bit_imp_le_length)
  have "?lo OR push_bit 16 ?hi = ?lo + push_bit 16 ?hi"
    using disj by (simp add: disjunctive_add_eq_or [symmetric])
  then have "uint (?lo OR push_bit 16 ?hi) = uint (?lo + push_bit 16 ?hi)"
    by simp
  also have "\<dots> = (uint ?lo + uint ?hi * 65536) mod 2 ^ 32"
    by (simp add: uint_word_ariths push_bit_eq_mult mod_simps)
  also have "\<dots> = (uint a + 256 * uint b + uint c * 65536) mod 2 ^ 32"
    by (simp only: uint_ucast_byte le16_word)
  also have "\<dots> = uint a + 256 * uint b + uint c * 65536"
    using uint_byte_bounds [of a] uint_byte_bounds [of b] uint_byte_bounds [of c]
    by (intro mod_pos_pos_trivial) auto
  finally show ?thesis by simp
qed

lemma sint_and_small:
  fixes w m :: "32 word"
  assumes "uint m < 2 ^ 31"
  shows "sint (w AND m) = uint w AND uint m"
proof -
  have u: "uint (w AND m) = uint w AND uint m"
    by (simp add: uint_and)
  have "uint w AND uint m \<le> uint m"
    by (rule AND_upper2) simp
  then have hi: "uint (w AND m) < 2 ^ 31"
    using assms u by linarith
  have "- (2 ^ 31) \<le> (0::int)"
    by simp
  also have "0 \<le> uint (w AND m)"
    by simp
  finally have lo: "- (2 ^ 31) \<le> uint (w AND m)" .
  have "sint (w AND m) = signed_take_bit (LENGTH(32) - 1) (uint (w AND m))"
    by (simp add: sint_uint)
  also have "\<dots> = uint (w AND m)"
    using lo hi by (intro signed_take_bit_int_eq_self) simp_all
  finally show ?thesis
    using u by simp
qed

lemma int_and_mask24: "(x::int) AND 16777215 = x mod 2 ^ 24"
proof -
  have e: "(16777215::int) = mask 24"
    by (simp add: mask_eq_exp_minus_1)
  have "x AND mask 24 = x mod 2 ^ 24"
    by (simp only: take_bit_eq_mask [symmetric] take_bit_eq_mod)
  then show ?thesis
    by (simp only: e)
qed

lemma js_and_1: "js_and (uint (b::byte)) 0x01 = uint b mod 2"
proof -
  have "js_and (uint b) 0x01 = uint (word_of_int (uint b) :: 32 word) AND uint (1 :: 32 word)"
    unfolding js_and_def by (subst sint_and_small) simp_all
  also have "uint (word_of_int (uint b) :: 32 word) = uint b"
    by (simp add: uint_ucast_byte)
  finally show ?thesis
    by (simp add: and_one_eq)
qed

lemma js_and_mask24:
  assumes "0 \<le> x" "x < 2 ^ 32"
  shows "js_and x 0x00FFFFFF = x mod 2 ^ 24"
proof -
  have "js_and x 0x00FFFFFF
        = uint (word_of_int x :: 32 word) AND uint (0x00FFFFFF :: 32 word)"
    unfolding js_and_def by (subst sint_and_small) simp_all
  also have "uint (word_of_int x :: 32 word) = x"
    using assms by (simp add: uint_word_of_int take_bit_int_eq_self)
  finally show ?thesis
    by (simp add: int_and_mask24)
qed

lemma readUInt16LE_value:
  assumes "offset + 2 \<le> length data"
  shows "readUInt16LE data offset
         = Inr (uint (data ! offset) + 256 * uint (data ! (offset + 1)))"
  using assms by (simp add: readUInt16LE_def le16_word del: One_nat_def)

lemma readUInt32LE_value:
  assumes "offset + 4 \<le> length data"
  shows "readUInt32LE data offset
         = Inr (uint (data ! offset) + 256 * uint (data ! (offset + 1))
                + 65536 * uint (data ! (offset + 2))
                + 16777216 * uint (data ! (offset + 3)))"
  using assms by (simp add: readUInt32LE_def le24_word)

lemma readUInt32LE_short:
  assumes "length data < offset + 4"
  shows "readUInt32LE data offset = Inl RangeError"
  using assms by (simp add: readUInt32LE_def)

lemma bit_0_byte: "bit (w :: byte) 0 \<longleftrightarrow> odd (uint w)"
proof -
  have "even w \<longleftrightarrow> even (uint w)"
    by (metis even_of_int_iff word_of_int_uint)
  then show ?thesis
    by (simp add: bit_0)
qed

lemma is16Bit_nonzero:
  assumes "data \<noteq> []"
  shows "is16Bit data \<noteq> 0 \<longleftrightarrow> bit (data ! 0) 0"
proof -
  have "is16Bit data = uint (data ! 0) mod 2"
    using assms by (simp add: is16Bit_def index_def js_and_1)
  then show ?thesis
    by (simp add: bit_0_byte odd_iff_mod_2_eq_one)
qed

lemma index_0x16:
  assumes "data \<noteq> []"
  shows "index data 0 = Number 0x16 \<longleftrightarrow> data ! 0 = 0x16"
proof -
  have "uint (data ! 0) = 22 \<longleftrightarrow> data ! 0 = 22"
    by (simp add: word_uint_eq_iff)
  then show ?thesis
    using assms by (simp add: index_def)
qed

section \<open>Heart-rate decoding: which width is read\<close>

text \<open>
  Claim C1, as the sources have it. The decoder of part_000 (and part_001) selects the
  width from bit 0 of the flags byte: with bit 0 set and at least 3 bytes the value is
  the little-endian unsigned 16-bit integer at offset 1, with bit 0 clear and at least
  2 bytes it is the byte at offset 1. The decoder of the "weekly reset" variant (and of
  part_002 and "add weekly total") does not look at bit 0: it reads the 16-bit integer
  exactly when the flags byte equals 0x16, and the byte at offset 1 otherwise.
\<close>

theorem C1_decodeHeartRate_width:
  "(bit (data ! 0) 0 \<and> 3 \<le> length data \<longrightarrow>
      decodeHeartRate_part000 data = Inr (Number (uint (data ! 1) + 256 * uint (data ! 2))))
   \<and> (\<not> bit (data ! 0) 0 \<and> 2 \<le> length data \<longrightarrow>
      decodeHeartRate_part000 data = Inr (Number (uint (data ! 1))))
   \<and> (data ! 0 = 0x16 \<and> 3 \<le> length data \<longrightarrow>
      decodeHeartRate_weeklyReset data = Inr (Number (uint (data ! 1) + 256 * uint (data ! 2))))
   \<and> (data ! 0 \<noteq> 0x16 \<and> 2 \<le> length data \<longrightarrow>
      decodeHeartRate_weeklyReset data = Inr (Number (uint (data ! 1))))"
proof (intro conjI impI)
  assume a: "bit (data ! 0) 0 \<and> 3 \<le> length data"
  then have ne: "data \<noteq> []" by auto
  have r: "readUInt16LE data 1 = Inr (uint (data ! 1) + 256 * uint (data ! 2))"
    using a readUInt16LE_value [of 1 data] by (simp add: eval_nat_numeral)
  show "decodeHeartRate_part000 data = Inr (Number (uint (data ! 1) + 256 * uint (data ! 2)))"
    using a is16Bit_nonzero [OF ne] r by (simp add: decodeHeartRate_part000_def)
next
  assume a: "\<not> bit (data ! 0) 0 \<and> 2 \<le> length data"
  then have ne: "data \<noteq> []" by auto
  show "decodeHeartRate_part000 data = Inr (Number (uint (data ! 1)))"
    using a is16Bit_nonzero [OF ne] by (simp add: decodeHeartRate_part000_def index_def)
next
  assume a: "data ! 0 = 0x16 \<and> 3 \<le> length data"
  then have ne: "data \<noteq> []" by auto
  have r: "readUInt16LE data 1 = Inr (uint (data ! 1) + 256 * uint (data ! 2))"
    using a readUInt16LE_value [of 1 data] by (simp add: eval_nat_numeral)
  show "decodeHeartRate_weeklyReset data
        = Inr (Number (uint (data ! 1) + 256 * uint (data ! 2)))"
    using a index_0x16 [OF ne] r by (simp add: decodeHeartRate_weeklyReset_def)
next
  assume a: "data ! 0 \<noteq> 0x16 \<and> 2 \<le> length data"
  then have ne: "data \<noteq> []" by auto
  show "decodeHeartRate_weeklyReset data = Inr (Number (uint (data ! 1)))"
    using a index_0x16 [OF ne] by (simp add: decodeHeartRate_weeklyReset_def index_def)
qed

theorem C1_decodeHeartRate_width_witness:
  "decodeHeartRate_part000 [0x01, 0x48, 0x01] = Inr (Number 328)
   \<and> decodeHeartRate_part000 [0x00, 0x48] = Inr (Number 72)
   \<and> decodeHeartRate_weeklyReset [0x16, 0x48, 0x01] = Inr (Number 328)
   \<and> decodeHeartRate_weeklyReset [0x00, 0x48] = Inr (Number 72)"
  using C1_decodeHeartRate_width [of "[0x01, 0x48, 0x01]"]
    C1_decodeHeartRate_width [of "[0x00, 0x48]"]
    C1_decodeHeartRate_width [of "[0x16, 0x48, 0x01]"]
  by (simp add: bit_0)

text \<open>
  The claim as stated fails on the "weekly reset" decoder: the flags byte 0x01 has bit 0
  set and the buffer has 3 bytes, the 16-bit integer at offset 1 is 328, and the decoder
  returns the single byte 72.
\<close>

theorem C1_decodeHeartRate_counterexample:
  "bit (0x01 :: byte) 0 \<and> 3 \<le> length [0x01, 0x48, 0x01 :: byte]
   \<and> uint (0x48 :: byte) + 256 * uint (0x01 :: byte) = 328
   \<and> decodeHeartRate_weeklyReset [0x01, 0x48, 0x01] = Inr (Number 72)"
  by (simp add: bit_0 decodeHeartRate_weeklyReset_def index_def)

section \<open>Step decoding\<close>

lemma low24_of_le32:
  fixes b1 b2 b3 b4 :: byte
  shows "(uint b1 + 256 * uint b2 + 65536 * uint b3 + 16777216 * uint b4) mod 2 ^ 24
         = uint b1 + 256 * uint b2 + 65536 * uint b3"
proof -
  let ?low = "uint b1 + 256 * uint b2 + 65536 * uint b3"
  have lo: "0 \<le> ?low"
    using uint_byte_bounds(1) [of b1] uint_byte_bounds(1) [of b2] uint_byte_bounds(1) [of b3]
    by linarith
  have hi: "?low < 2 ^ 24"
    using uint_byte_bounds(2) [of b1] uint_byte_bounds(2) [of b2] uint_byte_bounds(2) [of b3]
    by simp
  have "(?low + 16777216 * uint b4) mod 2 ^ 24 = ?low mod 2 ^ 24"
    by (simp add: mod_simps)
  also have "\<dots> = ?low"
    using lo hi by (rule mod_pos_pos_trivial)
  finally show ?thesis .
qed

text \<open>
  From 5 bytes on, the decoded count is the low 24 bits of the little-endian 32-bit
  integer at offset 1: the bytes at offsets 1, 2 and 3.
\<close>

lemma decodeStepCount_value:
  assumes "5 \<le> length data"
  shows "decodeStepCount data
         = Inr (uint (data ! 1) + 256 * uint (data ! 2) + 65536 * uint (data ! 3))"
proof -
  let ?v = "uint (data ! 1) + 256 * uint (data ! 2) + 65536 * uint (data ! 3)
            + 16777216 * uint (data ! 4)"
  have r: "readUInt32LE data 1 = Inr ?v"
    using assms readUInt32LE_value [of 1 data] by (simp add: eval_nat_numeral)
  have lo: "0 \<le> ?v"
    using uint_byte_bounds(1) [of "data ! 1"] uint_byte_bounds(1) [of "data ! 2"]
      uint_byte_bounds(1) [of "data ! 3"] uint_byte_bounds(1) [of "data ! 4"]
    by linarith
  have hi: "?v < 2 ^ 32"
    using uint_byte_bounds(2) [of "data ! 1"] uint_byte_bounds(2) [of "data ! 2"]
      uint_byte_bounds(2) [of "data ! 3"] uint_byte_bounds(2) [of "data ! 4"]
    by simp
  have "js_and ?v 0x00FFFFFF = ?v mod 2 ^ 24"
    using lo hi by (rule js_and_mask24)
  also have "\<dots> = uint (data ! 1) + 256 * uint (data ! 2) + 65536 * uint (data ! 3)"
    by (rule low24_of_le32)
  finally show ?thesis
    using assms r by (simp add: decodeStepCount_def)
qed

lemma decodeStepCount_short:
  assumes "length data < 4"
  shows "decodeStepCount data = Inr 0"
  using assms by (simp add: decodeStepCount_def)

lemma decodeStepCount_four:
  assumes "length data = 4"
  shows "decodeStepCount data = Inl RangeError"
  using assms by (simp add: decodeStepCount_def readUInt32LE_def)

text \<open>
  Claim C2 at the 4-byte buffer it names. The guard \<open>data.length >= 4\<close> lets the buffer
  through, \<open>readUInt32LE(1)\<close> needs the bytes at offsets 1 to 4 and throws, and the
  poll's \<open>catch\<close> drops the reading: the decoder does not return 100, and the state
  keeps its old step count.
\<close>

theorem C2_decodeStepCount_four_bytes:
  "decodeStepCount [0x00, 0x64, 0x00, 0x00] = Inl RangeError
   \<and> decodeStepCount [0x00, 0x64, 0x00, 0x00, 0x00] = Inr 100
   \<and> stepPoll_weeklyReset
         \<lparr>isConnected = True,
          primary = Characteristic (Some [0x00, 0x64, 0x00, 0x00]),
          alternative = Failed\<rparr>
         (connectToDevice True initialState)
       = connectToDevice True initialState
   \<and> stepPoll_part002
         \<lparr>isConnected = True,
          primary = Characteristic (Some [0x00, 0x64, 0x00, 0x00]),
          alternative = Failed\<rparr>
         (connectToDevice True initialState)
       = connectToDevice True initialState"
proof -
  have four: "decodeStepCount [0x00, 0x64, 0x00, 0x00] = Inl RangeError"
    by (rule decodeStepCount_four) simp
  have five: "decodeStepCount [0x00, 0x64, 0x00, 0x00, 0x00] = Inr 100"
    using decodeStepCount_value [of "[0x00, 0x64, 0x00, 0x00, 0x00]"] by simp
  show ?thesis
    using four five
    by (simp add: stepPoll_weeklyReset_def stepPoll_part002_def readStepValue_def
        connectToDevice_def)
qed

section \<open>The heart-rate handlers\<close>

lemma hrNotification_weeklyReset_decoded:
  assumes "data \<noteq> []" and "decodeHeartRate_weeklyReset data = Inr bpm"
  shows "hrNotification_weeklyReset False (Some data) ts st
         = (if js_gt bpm 30 \<and> js_lt bpm 220
            then st\<lparr>heartRate := bpm,
                    hrHistory := slice_last 9 (hrHistory st) @ [bpm],
                    hrFluctuations := slice_last 10 (hrFluctuations st) @ [(bpm, ts)],
                    dailyRecords := (dailyRecords st)\<lparr>avgHr := bpm\<rparr>\<rparr>
            else st)"
  using assms by (simp add: hrNotification_weeklyReset_def)

lemma hrNotification_part002_decoded:
  assumes "data \<noteq> []" and "decodeHeartRate_weeklyReset data = Inr bpm"
  shows "hrNotification_part002 err (Some data) st
         = (if js_gt bpm 30 \<and> js_lt bpm 220
            then st\<lparr>heartRate := bpm,
                    hrHistory := slice_last 9 (hrHistory st) @ [bpm],
                    dailyRecords := (dailyRecords st)\<lparr>avgHr := bpm\<rparr>\<rparr>
            else st)"
  using assms by (simp add: hrNotification_part002_def)

lemma hrNotification_part000_decoded:
  assumes "data \<noteq> []" and "decodeHeartRate_part000 data = Inr bpm"
  shows "hrNotification_part000 False (Some data) st
         = st\<lparr>heartRate := bpm, hrHistory := slice_last 9 (hrHistory st) @ [bpm]\<rparr>"
  using assms by (simp add: hrNotification_part000_def)

lemma uint_byte_of_int:
  assumes "0 \<le> n" "n < 256"
  shows "uint (word_of_int n :: byte) = n"
  using assms by (simp add: uint_word_of_int take_bit_int_eq_self)

lemma byte_of_int_eq_0x16:
  assumes "0 \<le> n" "n < 256"
  shows "(word_of_int n :: byte) = 0x16 \<longleftrightarrow> n = 22"
  using assms uint_byte_of_int [of n] by (auto simp: word_uint_eq_iff)

lemma decode_bpmFrame_weeklyReset:
  assumes "0 \<le> n" "n < 256"
  shows "decodeHeartRate_weeklyReset (bpmFrame n) = Inr (Number n)"
  using assms
  by (simp add: decodeHeartRate_weeklyReset_def bpmFrame_def index_def uint_byte_of_int)

lemma decode_bpmFrame_part000:
  assumes "0 \<le> n" "n < 256"
  shows "decodeHeartRate_part000 (bpmFrame n) = Inr (Number n)"
proof -
  have "\<not> bit ((bpmFrame n) ! 0) 0"
    by (simp add: bpmFrame_def)
  then have "is16Bit (bpmFrame n) = 0"
    using is16Bit_nonzero [of "bpmFrame n"] by (simp add: bpmFrame_def)
  then show ?thesis
    using assms
    by (simp add: decodeHeartRate_part000_def bpmFrame_def index_def uint_byte_of_int)
qed

section \<open>The sanity filter on heart rates\<close>

text \<open>
  Claim C4, as the sources have it. The comparison is strict on both sides,
  \<open>if (bpm > 30 && bpm < 220)\<close>: a decoded value \<open>bpm\<close> is accepted (current heart rate,
  history window and \<open>avgHr\<close> of the daily record updated) if and only if
  \<open>30 < bpm < 220\<close>; every other decoded value, 30 and 220 included, leaves the whole
  state as it was. The "weekly reset" handler and the part_002 handler agree on this.
\<close>

theorem C4_heartRate_filter:
  assumes "data \<noteq> []" and "decodeHeartRate_weeklyReset data = Inr (Number bpm)"
  shows "(30 < bpm \<and> bpm < 220 \<longrightarrow>
            heartRate (hrNotification_weeklyReset False (Some data) ts st) = Number bpm
          \<and> hrHistory (hrNotification_weeklyReset False (Some data) ts st)
              = slice_last 9 (hrHistory st) @ [Number bpm]
          \<and> avgHr (dailyRecords (hrNotification_weeklyReset False (Some data) ts st))
              = Number bpm
          \<and> heartRate (hrNotification_part002 err (Some data) st) = Number bpm
          \<and> hrHistory (hrNotification_part002 err (Some data) st)
              = slice_last 9 (hrHistory st) @ [Number bpm]
          \<and> avgHr (dailyRecords (hrNotification_part002 err (Some data) st)) = Number bpm)
       \<and> (\<not> (30 < bpm \<and> bpm < 220) \<longrightarrow>
            hrNotification_weeklyReset False (Some data) ts st = st
          \<and> hrNotification_part002 err (Some data) st = st)"
  using hrNotification_weeklyReset_decoded [OF assms, of ts st]
    hrNotification_part002_decoded [OF assms, of err st]
  by auto

theorem C4_heartRate_filter_witness:
  "heartRate (hrNotification_weeklyReset False (Some [0x00, 0x48]) ''09:00'' initialState)
     = Number 72
   \<and> hrHistory (hrNotification_part002 False (Some [0x00, 0x48]) initialState)
     = slice_last 9 (hrHistory initialState) @ [Number 72]
   \<and> hrNotification_weeklyReset False (Some [0x00, 0x1D]) ''09:00'' initialState
     = initialState"
proof -
  have a: "decodeHeartRate_weeklyReset [0x00, 0x48] = Inr (Number 72)"
    using decode_bpmFrame_weeklyReset [of 72] by (simp add: bpmFrame_def)
  have b: "decodeHeartRate_weeklyReset [0x00, 0x1D] = Inr (Number 29)"
    using decode_bpmFrame_weeklyReset [of 29] by (simp add: bpmFrame_def)
  show ?thesis
    using C4_heartRate_filter [OF _ a, of "''09:00''" initialState False]
      C4_heartRate_filter [OF _ b, of "''09:00''" initialState False]
    by simp
qed

text \<open>
  The claim as stated fails at both ends of its interval: 30 and 220 are in \<open>[30, 220]\<close>,
  the frames decode to them, and the handler discards them.
\<close>

theorem C4_heartRate_filter_counterexample:
  "decodeHeartRate_weeklyReset [0x00, 0x1E] = Inr (Number 30)
   \<and> (30 :: int) \<le> 30 \<and> (30 :: int) \<le> 220
   \<and> hrNotification_weeklyReset False (Some [0x00, 0x1E]) ''09:00'' initialState
       = initialState
   \<and> heartRate initialState \<noteq> Number 30
   \<and> decodeHeartRate_weeklyReset [0x00, 0xDC] = Inr (Number 220)
   \<and> hrNotification_weeklyReset False (Some [0x00, 0xDC]) ''09:00'' initialState
       = initialState"
proof -
  have a: "decodeHeartRate_weeklyReset [0x00, 0x1E] = Inr (Number 30)"
    using decode_bpmFrame_weeklyReset [of 30] by (simp add: bpmFrame_def)
  have b: "decodeHeartRate_weeklyReset [0x00, 0xDC] = Inr (Number 220)"
    using decode_bpmFrame_weeklyReset [of 220] by (simp add: bpmFrame_def)
  show ?thesis
    using a b
    by (simp add: hrNotification_weeklyReset_def initialState_def)
qed

section \<open>The history window\<close>

lemma slice_last_snoc: "slice_last (Suc k) (xs @ [v]) = slice_last k xs @ [v]"
  by (simp add: slice_last_def)

lemma slice_last_slice_last:
  assumes "k \<le> m"
  shows "slice_last k (slice_last m xs) = slice_last k xs"
proof (cases "length xs \<le> m")
  case True
  then show ?thesis by (simp add: slice_last_def)
next
  case False
  then have "min m (length xs) - k + (length xs - m) = length xs - k"
    using assms by simp
  then show ?thesis
    by (simp add: slice_last_def min_def add.commute split: if_splits)
qed

lemma length_slice_last: "length (slice_last k xs) = min k (length xs)"
  by (auto simp: slice_last_def)

lemma slice_last_all:
  assumes "length xs \<le> k"
  shows "slice_last k xs = xs"
  using assms by (simp add: slice_last_def)

lemma slice_last_tl:
  assumes "length xs = Suc k"
  shows "slice_last k xs = tl xs"
  using assms by (simp add: slice_last_def drop_Suc)

text \<open>Pushing samples one by one keeps the last 10 of everything seen.\<close>

lemma foldl_push:
  assumes "vs \<noteq> []"
  shows "foldl (\<lambda>h v. slice_last 9 h @ [v]) h0 vs = slice_last 10 (h0 @ vs)"
  using assms
proof (induction vs rule: rev_induct)
  case Nil
  then show ?case by simp
next
  case (snoc v vs)
  show ?case
  proof (cases "vs = []")
    case True
    have "slice_last (Suc 9) (h0 @ [v]) = slice_last 9 h0 @ [v]"
      by (rule slice_last_snoc)
    then show ?thesis
      using True by simp
  next
    case False
    then have ih: "foldl (\<lambda>h v. slice_last 9 h @ [v]) h0 vs = slice_last 10 (h0 @ vs)"
      by (rule snoc.IH)
    have "slice_last 9 (slice_last 10 (h0 @ vs)) = slice_last 9 (h0 @ vs)"
      by (rule slice_last_slice_last) simp
    moreover have "slice_last (Suc 9) ((h0 @ vs) @ [v]) = slice_last 9 (h0 @ vs) @ [v]"
      by (rule slice_last_snoc)
    ultimately show ?thesis
      using ih by simp
  qed
qed

lemma hrHistory_foldl_weeklyReset:
  assumes "\<forall>n \<in> set vs. 30 < n \<and> n < 220"
  shows "hrHistory (foldl (\<lambda>s n. hrNotification_weeklyReset False (Some (bpmFrame n)) ts s)
                      st vs)
         = foldl (\<lambda>h v. slice_last 9 h @ [v]) (hrHistory st) (map Number vs)"
  using assms
proof (induction vs arbitrary: st)
  case Nil
  then show ?case by simp
next
  case (Cons n vs)
  then have n: "30 < n" "n < 220" by simp_all
  have d: "decodeHeartRate_weeklyReset (bpmFrame n) = Inr (Number n)"
    using n by (intro decode_bpmFrame_weeklyReset) simp_all
  have ne: "bpmFrame n \<noteq> []"
    by (simp add: bpmFrame_def)
  have step: "hrHistory (hrNotification_weeklyReset False (Some (bpmFrame n)) ts st)
              = slice_last 9 (hrHistory st) @ [Number n]"
    using n by (simp add: hrNotification_weeklyReset_decoded [OF ne d])
  show ?case
    using Cons.IH [of "hrNotification_weeklyReset False (Some (bpmFrame n)) ts st"] Cons.prems
    by (simp add: step)
qed

lemma hrHistory_foldl_part000:
  assumes "\<forall>n \<in> set vs. 30 < n \<and> n < 220"
  shows "hrHistory (foldl (\<lambda>s n. hrNotification_part000 False (Some (bpmFrame n)) s) st vs)
         = foldl (\<lambda>h v. slice_last 9 h @ [v]) (hrHistory st) (map Number vs)"
  using assms
proof (induction vs arbitrary: st)
  case Nil
  then show ?case by simp
next
  case (Cons n vs)
  then have n: "30 < n" "n < 220" by simp_all
  have d: "decodeHeartRate_part000 (bpmFrame n) = Inr (Number n)"
    using n by (intro decode_bpmFrame_part000) simp_all
  have ne: "bpmFrame n \<noteq> []"
    by (simp add: bpmFrame_def)
  have step: "hrHistory (hrNotification_part000 False (Some (bpmFrame n)) st)
              = slice_last 9 (hrHistory st) @ [Number n]"
    by (simp add: hrNotification_part000_decoded [OF ne d])
  show ?case
    using Cons.IH [of "hrNotification_part000 False (Some (bpmFrame n)) st"] Cons.prems
    by (simp add: step)
qed

text \<open>
  Claim C9. An accepted sample is appended after the last 9 elements of the window
  (\<open>[...prev.slice(-9), bpm]\<close>): a window of fewer than 10 elements grows by the sample,
  a window of 10 loses its oldest element, and no window is longer than 10 afterwards.
  After any non-empty run of accepted samples the window holds the last 10 of the old
  window followed by the run; for the run 60, 65, ..., 110 that is 65, ..., 110,
  whatever the window held before. The handler of part_000, which has no sanity
  filter, keeps its window the same way.
\<close>

theorem C9_history_window:
  "(data \<noteq> [] \<and> decodeHeartRate_weeklyReset data = Inr bpm \<and> js_gt bpm 30 \<and> js_lt bpm 220
      \<longrightarrow>
      hrHistory (hrNotification_weeklyReset False (Some data) ts st)
        = slice_last 9 (hrHistory st) @ [bpm]
      \<and> length (hrHistory (hrNotification_weeklyReset False (Some data) ts st)) \<le> 10
      \<and> (length (hrHistory st) < 10 \<longrightarrow>
           hrHistory (hrNotification_weeklyReset False (Some data) ts st)
             = hrHistory st @ [bpm])
      \<and> (length (hrHistory st) = 10 \<longrightarrow>
           hrHistory (hrNotification_weeklyReset False (Some data) ts st)
             = tl (hrHistory st) @ [bpm]))
   \<and> (vs \<noteq> [] \<and> (\<forall>n \<in> set vs. 30 < n \<and> n < 220) \<longrightarrow>
      hrHistory (foldl (\<lambda>s n. hrNotification_weeklyReset False (Some (bpmFrame n)) ts s)
                   st vs)
        = slice_last 10 (hrHistory st @ map Number vs)
      \<and> hrHistory (foldl (\<lambda>s n. hrNotification_part000 False (Some (bpmFrame n)) s) st vs)
        = slice_last 10 (hrHistory st @ map Number vs))
   \<and> hrHistory
       (foldl (\<lambda>s n. hrNotification_weeklyReset False (Some (bpmFrame n)) ts s) st
          [60, 65, 70, 75, 80, 85, 90, 95, 100, 105, 110])
     = map Number [65, 70, 75, 80, 85, 90, 95, 100, 105, 110]
   \<and> hrHistory
       (foldl (\<lambda>s n. hrNotification_part000 False (Some (bpmFrame n)) s) st
          [60, 65, 70, 75, 80, 85, 90, 95, 100, 105, 110])
     = map Number [65, 70, 75, 80, 85, 90, 95, 100, 105, 110]"
proof (intro conjI impI)
  assume a: "data \<noteq> [] \<and> decodeHeartRate_weeklyReset data = Inr bpm
             \<and> js_gt bpm 30 \<and> js_lt bpm 220"
  then have h: "hrHistory (hrNotification_weeklyReset False (Some data) ts st)
                = slice_last 9 (hrHistory st) @ [bpm]"
    by (simp add: hrNotification_weeklyReset_decoded [of data bpm])
  show "hrHistory (hrNotification_weeklyReset False (Some data) ts st)
        = slice_last 9 (hrHistory st) @ [bpm]"
    by (rule h)
  show "length (hrHistory (hrNotification_weeklyReset False (Some data) ts st)) \<le> 10"
    by (simp add: h length_slice_last)
  show "hrHistory (hrNotification_weeklyReset False (Some data) ts st) = hrHistory st @ [bpm]"
    if "length (hrHistory st) < 10"
    using that by (simp add: h slice_last_all)
  show "hrHistory (hrNotification_weeklyReset False (Some data) ts st)
        = tl (hrHistory st) @ [bpm]"
    if "length (hrHistory st) = 10"
    using that by (simp add: h slice_last_tl)
next
  assume a: "vs \<noteq> [] \<and> (\<forall>n \<in> set vs. 30 < n \<and> n < 220)"
  then have ne: "map Number vs \<noteq> []"
    by simp
  show "hrHistory (foldl (\<lambda>s n. hrNotification_weeklyReset False (Some (bpmFrame n)) ts s)
                     st vs)
        = slice_last 10 (hrHistory st @ map Number vs)"
    using a by (simp add: hrHistory_foldl_weeklyReset foldl_push [OF ne])
  show "hrHistory (foldl (\<lambda>s n. hrNotification_part000 False (Some (bpmFrame n)) s) st vs)
        = slice_last 10 (hrHistory st @ map Number vs)"
    using a by (simp add: hrHistory_foldl_part000 foldl_push [OF ne])
next
  let ?run = "[60, 65, 70, 75, 80, 85, 90, 95, 100, 105, 110] :: int list"
  have ne: "map Number ?run \<noteq> []"
    by simp
  have ok: "\<forall>n \<in> set ?run. 30 < n \<and> n < 220"
    by simp
  have last10: "slice_last 10 (hrHistory st @ map Number ?run)
                = map Number [65, 70, 75, 80, 85, 90, 95, 100, 105, 110]"
    by (simp add: slice_last_def)
  show "hrHistory
          (foldl (\<lambda>s n. hrNotification_weeklyReset False (Some (bpmFrame n)) ts s) st ?run)
        = map Number [65, 70, 75, 80, 85, 90, 95, 100, 105, 110]"
    by (simp only: hrHistory_foldl_weeklyReset [OF ok] foldl_push [OF ne] last10)
  show "hrHistory (foldl (\<lambda>s n. hrNotification_part000 False (Some (bpmFrame n)) s) st ?run)
        = map Number [65, 70, 75, 80, 85, 90, 95, 100, 105, 110]"
    by (simp only: hrHistory_foldl_part000 [OF ok] foldl_push [OF ne] last10)
qed

theorem C9_history_window_witness:
  "hrHistory (hrNotification_weeklyReset False (Some [0x00, 0x48]) ''09:00'' initialState)
     = [Number 0, Number 0, Number 0, Number 0, Number 0, Number 72]
   \<and> hrHistory
       (foldl (\<lambda>s n. hrNotification_weeklyReset False (Some (bpmFrame n)) ''09:00'' s)
          initialState [60, 65, 70, 75, 80, 85, 90, 95, 100, 105, 110])
     = map Number [65, 70, 75, 80, 85, 90, 95, 100, 105, 110]
   \<and> hrHistory
       (foldl (\<lambda>s n. hrNotification_part000 False (Some (bpmFrame n)) s)
          initialState [60, 65, 70, 75, 80, 85, 90, 95, 100, 105, 110])
     = map Number [65, 70, 75, 80, 85, 90, 95, 100, 105, 110]"
proof -
  note window = C9_history_window
    [of "[0x00, 0x48]" "Number 72" "''09:00''" initialState "[60 :: int]"]
  have d: "decodeHeartRate_weeklyReset [0x00, 0x48] = Inr (Number 72)"
    using decode_bpmFrame_weeklyReset [of 72] by (simp add: bpmFrame_def)
  have len: "length (hrHistory initialState) < 10"
    by (simp add: initialState_def)
  have ante: "[0x00, 0x48 :: byte] \<noteq> [] \<and> decodeHeartRate_weeklyReset [0x00, 0x48] = Inr (Number 72)
              \<and> js_gt (Number 72) 30 \<and> js_lt (Number 72) 220"
    using d by simp
  have "hrHistory (hrNotification_weeklyReset False (Some [0x00, 0x48]) ''09:00'' initialState)
        = hrHistory initialState @ [Number 72]"
    using window ante len by blast
  then have one: "hrHistory (hrNotification_weeklyReset False (Some [0x00, 0x48]) ''09:00''
                               initialState)
                  = [Number 0, Number 0, Number 0, Number 0, Number 0, Number 72]"
    by (simp add: initialState_def)
  show ?thesis
    using one window by blast
qed

section \<open>The weekly reset check\<close>

lemma keys_distinct:
  "RESET_KEY \<noteq> STORAGE_KEY" "STORAGE_KEY \<noteq> RESET_KEY"
  "RESET_TRACKER_KEY \<noteq> STORAGE_KEY" "STORAGE_KEY \<noteq> RESET_TRACKER_KEY"
  by (simp_all add: RESET_KEY_def STORAGE_KEY_def RESET_TRACKER_KEY_def)












section \<open>Automatic saving\<close>

text \<open>
  Claim C10. The automatic save writes only when the daily step count is positive. With
  a count of zero (or below) the effect leaves the whole state, the store included, as
  it was: so in the initial state, and so right after the weekly reset of the "add
  weekly total" variant has zeroed the daily record, where the blob saved before is
  still in the store. With a positive count the effect puts the combined blob under
  \<open>STORAGE_KEY\<close> and touches no other key.
\<close>

theorem C10_autoSave_gate:
  "(steps (dailyRecords st) \<le> 0 \<longrightarrow>
      autoSave_weeklyReset st = st \<and> autoSave_part002 st = st
      \<and> autoSave_addWeeklyTotal st = st)
   \<and> (0 < steps (dailyRecords st) \<longrightarrow>
      storage (autoSave_weeklyReset st) STORAGE_KEY
        = Some (Json \<lparr>s_dailyRecords = dailyRecords st, s_hrHistory = hrHistory st,
                       s_hrFluctuations = Some (hrFluctuations st),
                       s_weeklyStats = Some (weeklyStats st)\<rparr>)
      \<and> storage (autoSave_part002 st) STORAGE_KEY
        = Some (Json \<lparr>s_dailyRecords = dailyRecords st, s_hrHistory = hrHistory st,
                       s_hrFluctuations = None, s_weeklyStats = None\<rparr>)
      \<and> (\<forall>k. k \<noteq> STORAGE_KEY \<longrightarrow>
            storage (autoSave_weeklyReset st) k = storage st k
          \<and> storage (autoSave_part002 st) k = storage st k))
   \<and> autoSave_weeklyReset initialState = initialState
   \<and> autoSave_part002 initialState = initialState
   \<and> (getDay now = 1 \<and> storage st RESET_TRACKER_KEY \<noteq> Some (Text (toDateString now)) \<longrightarrow>
      storage (autoSave_addWeeklyTotal (handleWeeklyReset now st)) STORAGE_KEY
        = storage st STORAGE_KEY)"
proof (intro conjI impI allI)
  assume "steps (dailyRecords st) \<le> 0"
  then show "autoSave_weeklyReset st = st" "autoSave_part002 st = st"
    "autoSave_addWeeklyTotal st = st"
    by (simp_all add: autoSave_weeklyReset_def autoSave_part002_def
        autoSave_addWeeklyTotal_def)
next
  assume "0 < steps (dailyRecords st)"
  then show "storage (autoSave_weeklyReset st) STORAGE_KEY
        = Some (Json \<lparr>s_dailyRecords = dailyRecords st, s_hrHistory = hrHistory st,
                       s_hrFluctuations = Some (hrFluctuations st),
                       s_weeklyStats = Some (weeklyStats st)\<rparr>)"
    and "storage (autoSave_part002 st) STORAGE_KEY
        = Some (Json \<lparr>s_dailyRecords = dailyRecords st, s_hrHistory = hrHistory st,
                       s_hrFluctuations = None, s_weeklyStats = None\<rparr>)"
    by (simp_all add: autoSave_weeklyReset_def autoSave_part002_def)
next
  fix k
  assume "0 < steps (dailyRecords st)" and "k \<noteq> STORAGE_KEY"
  then show "storage (autoSave_weeklyReset st) k = storage st k"
    and "storage (autoSave_part002 st) k = storage st k"
    by (simp_all add: autoSave_weeklyReset_def autoSave_part002_def)
next
  show "autoSave_weeklyReset initialState = initialState"
    and "autoSave_part002 initialState = initialState"
    by (simp_all add: autoSave_weeklyReset_def autoSave_part002_def initialState_def
        zeroDaily_def)
next
  assume "getDay now = 1 \<and> storage st RESET_TRACKER_KEY \<noteq> Some (Text (toDateString now))"
  then show "storage (autoSave_addWeeklyTotal (handleWeeklyReset now st)) STORAGE_KEY
        = storage st STORAGE_KEY"
    by (simp add: autoSave_addWeeklyTotal_def handleWeeklyReset_def zeroDaily_def
        keys_distinct)
qed

text \<open>
  A state with 5000 daily steps saves its blob; the same state with the count at zero
  keeps the blob that was stored before.
\<close>

theorem C10_autoSave_gate_witness:
  "storage (autoSave_part002
      (initialState\<lparr>dailyRecords := zeroDaily\<lparr>steps := 5000\<rparr>\<rparr>)) STORAGE_KEY
     = Some (Json \<lparr>s_dailyRecords = zeroDaily\<lparr>steps := 5000\<rparr>,
                    s_hrHistory = hrHistory initialState,
                    s_hrFluctuations = None, s_weeklyStats = None\<rparr>)
   \<and> storage (autoSave_part002
      (initialState\<lparr>dailyRecords := zeroDaily\<lparr>steps := 5000\<rparr>\<rparr>)) RESET_KEY = None
   \<and> autoSave_weeklyReset
        (initialState\<lparr>storage := [STORAGE_KEY \<mapsto> Text ''saved before'']\<rparr>)
     = initialState\<lparr>storage := [STORAGE_KEY \<mapsto> Text ''saved before'']\<rparr>
   \<and> storage (autoSave_addWeeklyTotal (handleWeeklyReset monday
        (initialState\<lparr>dailyRecords := zeroDaily\<lparr>steps := 5000\<rparr>,
                       storage := [STORAGE_KEY \<mapsto> Text ''saved before'']\<rparr>))) STORAGE_KEY
     = Some (Text ''saved before'')"
  using C10_autoSave_gate
      [of "initialState\<lparr>dailyRecords := zeroDaily\<lparr>steps := 5000\<rparr>\<rparr>" monday]
    C10_autoSave_gate
      [of "initialState\<lparr>storage := [STORAGE_KEY \<mapsto> Text ''saved before'']\<rparr>" monday]
    C10_autoSave_gate
      [of "initialState\<lparr>dailyRecords := zeroDaily\<lparr>steps := 5000\<rparr>,
                        storage := [STORAGE_KEY \<mapsto> Text ''saved before'']\<rparr>" monday]
  by (simp add: initialState_def zeroDaily_def monday_def keys_distinct)

section \<open>The step polls\<close>

lemma stepPoll_part002_decoded:
  assumes "deviceRef st" and "readStepValue t = Some data"
    and "decodeStepCount data = Inr count"
  shows "stepPoll_part002 t st
         = (if count > 0
            then st\<lparr>bandSteps := count,
                    dailyRecords := (dailyRecords st)
                      \<lparr>steps := count, distance := dist_of count, calories := cal_of count\<rparr>\<rparr>
            else st)"
  using assms by (simp add: stepPoll_part002_def)

lemma stepPoll_addWeeklyTotal_decoded:
  assumes "deviceRef st" and "readStepValue t = Some data"
    and "decodeStepCount data = Inr count"
  shows "stepPoll_addWeeklyTotal t st
         = (if count > 0
            then st\<lparr>bandSteps := count,
                    dailyRecords := (dailyRecords st)
                      \<lparr>steps := count, distance := dist_of count, calories := cal_of count\<rparr>,
                    weeklyStats :=
                      \<lparr>wsteps = count, wcalories = cal_of count,
                       wdistance = dist_of count\<rparr>\<rparr>
            else st)"
  using assms
  by (simp add: stepPoll_addWeeklyTotal_def updateWeeklyStats_addWeeklyTotal_def)

lemma stepPoll_weeklyReset_decoded:
  assumes "deviceRef st" and "isConnected t" and "readStepValue t = Some data"
    and "decodeStepCount data = Inr count"
  shows "stepPoll_weeklyReset t st
         = (if count > 0
            then st\<lparr>bandSteps := count,
                    dailyRecords := (dailyRecords st)
                      \<lparr>steps := count, distance := dist_of count, calories := cal_of count\<rparr>,
                    weeklyStats :=
                      \<lparr>wsteps = count * 7, wcalories = cal_of (count * 7),
                       wdistance = dist_of (count * 7)\<rparr>\<rparr>
            else st)"
  using assms
  by (simp add: stepPoll_weeklyReset_def updateWeeklyStats_weeklyReset_def Let_def)

lemma stepPoll_crashChanges_decoded:
  assumes "primary t = Characteristic (Some data)" and "4 \<le> length data"
    and "decodeStepCount data = Inr count"
  shows "stepPoll_crashChanges t st
         = st\<lparr>bandSteps := count,
               dailyRecords := (dailyRecords st)
                 \<lparr>steps := count, distance := dist_of count,
                  calories := cal_of_crashChanges count\<rparr>\<rparr>"
proof -
  have ne: "data \<noteq> []"
    using assms(2) by auto
  obtain v where v: "readUInt32LE data 1 = Inr v" and c: "count = js_and v 0x00FFFFFF"
    using assms(2,3) by (auto simp: decodeStepCount_def split: sum.splits)
  show ?thesis
    using assms(1,2) ne v c by (simp add: stepPoll_crashChanges_def Let_def)
qed

lemma fl_0: "fl 0 = 0"
  by (simp add: fl_def)

lemma toFixed2_0: "toFixed2 0 = 0"
proof -
  have "\<lfloor>(1 :: rat) / 2\<rfloor> = 0"
    by (rule floor_unique) simp_all
  then show ?thesis
    by (simp add: toFixed2_def)
qed

lemma metrics_of_0: "dist_of 0 = 0" "cal_of 0 = 0" "cal_of_crashChanges 0 = 0"
  by (simp_all add: dist_of_def cal_of_def cal_of_crashChanges_def js_mul_def js_div_def
      fl_0 toFixed2_0 Math_floor_def)

lemma readStepValue_tickWith:
  assumes "data \<noteq> []"
  shows "readStepValue (tickWith data) = Some data"
  using assms by (simp add: readStepValue_def tickWith_def)

lemma decodeStepCount_zeros: "decodeStepCount [0x00, 0x00, 0x00, 0x00, 0x00] = Inr 0"
  using decodeStepCount_value [of "[0x00, 0x00, 0x00, 0x00, 0x00]"] by simp

lemma decodeStepCount_100: "decodeStepCount [0x00, 0x64, 0x00, 0x00, 0x00] = Inr 100"
  using decodeStepCount_value [of "[0x00, 0x64, 0x00, 0x00, 0x00]"] by simp

lemma decodeStepCount_5000: "decodeStepCount [0x00, 0x88, 0x13, 0x00, 0x00] = Inr 5000"
  using decodeStepCount_value [of "[0x00, 0x88, 0x13, 0x00, 0x00]"] by simp

section \<open>A decoded count of zero\<close>

text \<open>
  Claim C7, as the sources have it. In part_002, "add weekly total" and "weekly reset"
  the update is under \<open>if (count > 0)\<close>: a poll whose decoded count is 0 leaves the
  whole state as it was, the daily record and the displayed band steps included. The
  "crash changes" variant has no such test: there a buffer of at least 4 bytes that
  decodes to 0 is applied, and sets the band steps and the daily steps, calories and
  distance to 0.
\<close>

theorem C7_zero_count:
  "(readStepValue t = Some data \<and> decodeStepCount data = Inr 0 \<longrightarrow>
      stepPoll_part002 t st = st \<and> stepPoll_addWeeklyTotal t st = st
      \<and> stepPoll_weeklyReset t st = st)
   \<and> (primary t = Characteristic (Some data) \<and> 4 \<le> length data
        \<and> decodeStepCount data = Inr 0 \<longrightarrow>
      stepPoll_crashChanges t st
        = st\<lparr>bandSteps := 0,
              dailyRecords := (dailyRecords st)\<lparr>steps := 0, distance := 0, calories := 0\<rparr>\<rparr>)"
proof (intro conjI impI)
  assume a: "readStepValue t = Some data \<and> decodeStepCount data = Inr 0"
  show "stepPoll_part002 t st = st"
    using a by (simp add: stepPoll_part002_def)
  show "stepPoll_addWeeklyTotal t st = st"
    using a by (simp add: stepPoll_addWeeklyTotal_def)
  show "stepPoll_weeklyReset t st = st"
    using a by (simp add: stepPoll_weeklyReset_def)
next
  assume a: "primary t = Characteristic (Some data) \<and> 4 \<le> length data
             \<and> decodeStepCount data = Inr 0"
  then show "stepPoll_crashChanges t st
        = st\<lparr>bandSteps := 0,
              dailyRecords := (dailyRecords st)\<lparr>steps := 0, distance := 0, calories := 0\<rparr>\<rparr>"
    using stepPoll_crashChanges_decoded [of t data 0 st] by (simp add: metrics_of_0)
qed

theorem C7_zero_count_witness:
  "stepPoll_part002 (tickWith [0x00, 0x00, 0x00, 0x00, 0x00]) walked = walked
   \<and> stepPoll_addWeeklyTotal (tickWith [0x00, 0x00, 0x00, 0x00, 0x00]) walked = walked
   \<and> stepPoll_weeklyReset (tickWith [0x00, 0x00, 0x00, 0x00, 0x00]) walked = walked
   \<and> stepPoll_crashChanges (tickWith [0x00, 0x00, 0x00, 0x00, 0x00]) walked
       = walked\<lparr>bandSteps := 0,
                dailyRecords := \<lparr>steps = 0, avgHr = Number 72, calories = 0, distance = 0\<rparr>\<rparr>"
  using C7_zero_count [of "tickWith [0x00, 0x00, 0x00, 0x00, 0x00]"
      "[0x00, 0x00, 0x00, 0x00, 0x00]" walked]
    readStepValue_tickWith [of "[0x00, 0x00, 0x00, 0x00, 0x00]"] decodeStepCount_zeros
  by (simp add: tickWith_def walked_def)

text \<open>
  The claim as stated fails on the "crash changes" poll: the buffer decodes to 0, and
  the poll replaces the 1234 steps on record, and the displayed band steps, by 0.
\<close>

theorem C7_zero_count_counterexample:
  "decodeStepCount [0x00, 0x00, 0x00, 0x00, 0x00] = Inr 0
   \<and> steps (dailyRecords walked) = 1234 \<and> bandSteps walked = 1234
   \<and> steps (dailyRecords
        (stepPoll_crashChanges (tickWith [0x00, 0x00, 0x00, 0x00, 0x00]) walked)) = 0
   \<and> bandSteps (stepPoll_crashChanges (tickWith [0x00, 0x00, 0x00, 0x00, 0x00]) walked) = 0"
proof -
  have "stepPoll_crashChanges (tickWith [0x00, 0x00, 0x00, 0x00, 0x00]) walked
        = walked\<lparr>bandSteps := 0,
                 dailyRecords := (dailyRecords walked)
                   \<lparr>steps := 0, distance := dist_of 0, calories := cal_of_crashChanges 0\<rparr>\<rparr>"
    by (rule stepPoll_crashChanges_decoded [of _ "[0x00, 0x00, 0x00, 0x00, 0x00]"])
      (simp_all add: tickWith_def decodeStepCount_zeros)
  then show ?thesis
    by (simp add: decodeStepCount_zeros walked_def)
qed

section \<open>The weekly record after a step reading\<close>

text \<open>
  Claim C8, as the sources have it. After an accepted step reading (a decoded count
  above 0) the weekly record is computed from that count alone: the record it had
  before and the counts of earlier days do not enter. In the "add weekly total" variant
  the weekly step count is the daily count, and the weekly calories and distance come
  from it by the formulas of the daily record. In the "weekly reset" variant the weekly
  step count is 7 times the daily count (\<open>totalSteps = currentSteps * 7\<close>), and the
  weekly calories and distance come from that sevenfold total.
\<close>

theorem C8_weekly_from_daily:
  "(deviceRef st \<and> readStepValue t = Some data \<and> decodeStepCount data = Inr count
      \<and> 0 < count \<longrightarrow>
      weeklyStats (stepPoll_addWeeklyTotal t st)
        = \<lparr>wsteps = count, wcalories = cal_of count, wdistance = dist_of count\<rparr>
      \<and> wsteps (weeklyStats (stepPoll_addWeeklyTotal t st))
        = steps (dailyRecords (stepPoll_addWeeklyTotal t st))
      \<and> wcalories (weeklyStats (stepPoll_addWeeklyTotal t st))
        = calories (dailyRecords (stepPoll_addWeeklyTotal t st))
      \<and> wdistance (weeklyStats (stepPoll_addWeeklyTotal t st))
        = distance (dailyRecords (stepPoll_addWeeklyTotal t st)))
   \<and> (deviceRef st \<and> isConnected t \<and> readStepValue t = Some data
      \<and> decodeStepCount data = Inr count \<and> 0 < count \<longrightarrow>
      weeklyStats (stepPoll_weeklyReset t st)
        = \<lparr>wsteps = 7 * count, wcalories = cal_of (7 * count),
            wdistance = dist_of (7 * count)\<rparr>
      \<and> wsteps (weeklyStats (stepPoll_weeklyReset t st))
        = 7 * steps (dailyRecords (stepPoll_weeklyReset t st)))"
proof (intro conjI impI)
  assume a: "deviceRef st \<and> readStepValue t = Some data \<and> decodeStepCount data = Inr count
             \<and> 0 < count"
  then have e: "stepPoll_addWeeklyTotal t st
        = st\<lparr>bandSteps := count,
              dailyRecords := (dailyRecords st)
                \<lparr>steps := count, distance := dist_of count, calories := cal_of count\<rparr>,
              weeklyStats :=
                \<lparr>wsteps = count, wcalories = cal_of count, wdistance = dist_of count\<rparr>\<rparr>"
    using stepPoll_addWeeklyTotal_decoded [of st t data count] by simp
  show "weeklyStats (stepPoll_addWeeklyTotal t st)
        = \<lparr>wsteps = count, wcalories = cal_of count, wdistance = dist_of count\<rparr>"
    by (simp add: e)
  show "wsteps (weeklyStats (stepPoll_addWeeklyTotal t st))
        = steps (dailyRecords (stepPoll_addWeeklyTotal t st))"
    by (simp add: e)
  show "wcalories (weeklyStats (stepPoll_addWeeklyTotal t st))
        = calories (dailyRecords (stepPoll_addWeeklyTotal t st))"
    by (simp add: e)
  show "wdistance (weeklyStats (stepPoll_addWeeklyTotal t st))
        = distance (dailyRecords (stepPoll_addWeeklyTotal t st))"
    by (simp add: e)
next
  assume a: "deviceRef st \<and> isConnected t \<and> readStepValue t = Some data
             \<and> decodeStepCount data = Inr count \<and> 0 < count"
  then have e: "stepPoll_weeklyReset t st
        = st\<lparr>bandSteps := count,
              dailyRecords := (dailyRecords st)
                \<lparr>steps := count, distance := dist_of count, calories := cal_of count\<rparr>,
              weeklyStats :=
                \<lparr>wsteps = count * 7, wcalories = cal_of (count * 7),
                 wdistance = dist_of (count * 7)\<rparr>\<rparr>"
    using stepPoll_weeklyReset_decoded [of st t data count] by simp
  show "weeklyStats (stepPoll_weeklyReset t st)
        = \<lparr>wsteps = 7 * count, wcalories = cal_of (7 * count),
            wdistance = dist_of (7 * count)\<rparr>"
    by (simp add: e mult.commute)
  show "wsteps (weeklyStats (stepPoll_weeklyReset t st))
        = 7 * steps (dailyRecords (stepPoll_weeklyReset t st))"
    by (simp add: e)
qed

theorem C8_weekly_from_daily_witness:
  "wsteps (weeklyStats
      (stepPoll_addWeeklyTotal (tickWith [0x00, 0x64, 0x00, 0x00, 0x00]) walked)) = 100
   \<and> wsteps (weeklyStats
      (stepPoll_weeklyReset (tickWith [0x00, 0x64, 0x00, 0x00, 0x00]) walked)) = 700"
proof -
  have w: "deviceRef walked" "isConnected (tickWith [0x00, 0x64, 0x00, 0x00, 0x00])"
    by (simp_all add: walked_def connectToDevice_def tickWith_def)
  have r: "readStepValue (tickWith [0x00, 0x64, 0x00, 0x00, 0x00])
           = Some [0x00, 0x64, 0x00, 0x00, 0x00]"
    by (rule readStepValue_tickWith) simp
  show ?thesis
    using w r decodeStepCount_100
      C8_weekly_from_daily [of walked "tickWith [0x00, 0x64, 0x00, 0x00, 0x00]"
        "[0x00, 0x64, 0x00, 0x00, 0x00]" 100]
    by simp
qed

text \<open>
  The claim as stated fails on the "weekly reset" poll: after a reading of 100 steps the
  daily record has 100 and the weekly record 700.
\<close>

theorem C8_weekly_from_daily_counterexample:
  "decodeStepCount [0x00, 0x64, 0x00, 0x00, 0x00] = Inr 100
   \<and> steps (dailyRecords
        (stepPoll_weeklyReset (tickWith [0x00, 0x64, 0x00, 0x00, 0x00]) walked)) = 100
   \<and> wsteps (weeklyStats
        (stepPoll_weeklyReset (tickWith [0x00, 0x64, 0x00, 0x00, 0x00]) walked)) = 700"
proof -
  have "stepPoll_weeklyReset (tickWith [0x00, 0x64, 0x00, 0x00, 0x00]) walked
        = walked\<lparr>bandSteps := 100,
                 dailyRecords := (dailyRecords walked)
                   \<lparr>steps := 100, distance := dist_of 100, calories := cal_of 100\<rparr>,
                 weeklyStats :=
                   \<lparr>wsteps = 100 * 7, wcalories = cal_of (100 * 7),
                    wdistance = dist_of (100 * 7)\<rparr>\<rparr>"
    using stepPoll_weeklyReset_decoded
      [of walked "tickWith [0x00, 0x64, 0x00, 0x00, 0x00]" "[0x00, 0x64, 0x00, 0x00, 0x00]" 100]
      decodeStepCount_100 readStepValue_tickWith [of "[0x00, 0x64, 0x00, 0x00, 0x00]"]
    by (simp add: walked_def connectToDevice_def tickWith_def)
  then show ?thesis
    by (simp add: decodeStepCount_100)
qed

section \<open>Disconnecting\<close>







section \<open>Facts about binary64 rounding\<close>

text \<open>
  What the exact results below need of \<open>fl\<close>: the result is a multiple of the unit
  in the last place \<open>2^(binade x - 52)\<close> and lies within half a unit of \<open>x\<close>.
\<close>

lemma floor_rat_numeral:
  "\<lfloor>(numeral a :: rat) / numeral b\<rfloor> = numeral a div numeral b"
  using floor_divide_of_int_eq [of "numeral a" "numeral b", where 'a = rat] by simp

lemma bitlen_upper: "n < 2 ^ bitlen n"
proof (induction n rule: bitlen.induct)
  case (1 n)
  show ?case
  proof (cases "n = 0")
    case True
    then show ?thesis by (simp add: bitlen.simps)
  next
    case False
    then have "n div 2 < 2 ^ bitlen (n div 2)"
      by (rule 1)
    then have "n < 2 * 2 ^ bitlen (n div 2)"
      by linarith
    then show ?thesis
      using False by (simp add: bitlen.simps [of n])
  qed
qed

lemma bitlen_le:
  assumes "n < 2 ^ j"
  shows "bitlen n \<le> j"
  using assms
proof (induction n arbitrary: j rule: bitlen.induct)
  case (1 n)
  show ?case
  proof (cases "n = 0")
    case True
    then show ?thesis by (simp add: bitlen.simps)
  next
    case False
    then obtain i where j: "j = Suc i"
      using "1.prems" by (cases j) auto
    then have "n div 2 < 2 ^ i"
      using "1.prems" by auto
    then have "bitlen (n div 2) \<le> i"
      using False by (intro 1)
    then show ?thesis
      using False j by (simp add: bitlen.simps [of n])
  qed
qed

lemma round_half_even_error: "\<bar>of_int (round_half_even y) - y\<bar> \<le> 1 / 2"
proof -
  have "of_int \<lfloor>y\<rfloor> \<le> y" "y < of_int \<lfloor>y\<rfloor> + 1"
    by linarith+
  then show ?thesis
    unfolding round_half_even_def Let_def by (auto simp: abs_le_iff)
qed

lemma pow2_pos: "0 < pow2 e"
  by (simp add: pow2_def)

text \<open>For \<open>1 \<le> a < 2^j\<close> the exponent is below \<open>j\<close>, and \<open>a\<close> is below the next power.\<close>

lemma binade_ge1:
  assumes "1 \<le> a" and "a < 2 ^ j"
  shows "0 \<le> binade a" and "binade a < int j" and "a < 2 ^ nat (binade a + 1)"
proof -
  let ?n = "nat \<lfloor>a\<rfloor>"
  have b: "binade a = int (bitlen ?n) - 1"
    using assms(1) by (simp add: binade_def)
  have fl1: "1 \<le> \<lfloor>a\<rfloor>"
    using assms(1) by linarith
  then have n1: "1 \<le> ?n"
    by linarith
  have "?n < 2 ^ bitlen ?n"
    by (rule bitlen_upper)
  then have pos: "0 < bitlen ?n"
    using n1 by (cases "bitlen ?n") auto
  show "0 \<le> binade a"
    using b pos by linarith
  have "\<lfloor>a\<rfloor> < 2 ^ j"
    using assms(2) by (simp add: floor_less_iff)
  then have "?n < 2 ^ j"
    using fl1 by (metis nat_less_numeral_power_cancel_iff nat_less_iff zero_le_one order_trans)
  then have "bitlen ?n \<le> j"
    by (rule bitlen_le)
  then show "binade a < int j"
    using b pos by linarith
  have e: "nat (binade a + 1) = bitlen ?n"
    using b by simp
  have "int ?n < 2 ^ bitlen ?n"
    using bitlen_upper [of ?n] by (metis of_nat_less_numeral_power_cancel_iff)
  then have "\<lfloor>a\<rfloor> < 2 ^ bitlen ?n"
    using fl1 by simp
  then have "a < 2 ^ bitlen ?n"
    by (simp add: floor_less_iff)
  then show "a < 2 ^ nat (binade a + 1)"
    by (simp only: e)
qed

lemma binade_lt1:
  assumes "0 < a" and "a < 1"
  shows "binade a \<le> 0"
proof -
  let ?B = "int (bitlen (nat \<lfloor>1 / a\<rfloor>))"
  have "1 < 1 / a"
    using assms by simp
  then have "1 \<le> nat \<lfloor>1 / a\<rfloor>"
    by linarith
  moreover have "nat \<lfloor>1 / a\<rfloor> < 2 ^ bitlen (nat \<lfloor>1 / a\<rfloor>)"
    by (rule bitlen_upper)
  ultimately have "1 \<le> ?B"
    by (cases "bitlen (nat \<lfloor>1 / a\<rfloor>)") auto
  then show ?thesis
    using assms by (auto simp: binade_def Let_def)
qed

lemma fl_grid:
  assumes "0 < x"
  shows "fl x = of_int (round_half_even (x / pow2 (binade x - 52))) * pow2 (binade x - 52)"
  using assms by (simp add: fl_def Let_def)

lemma fl_error:
  assumes "0 < x"
  shows "\<bar>fl x - x\<bar> \<le> pow2 (binade x - 52) / 2"
proof -
  let ?p = "pow2 (binade x - 52)"
  let ?m = "of_int (round_half_even (x / ?p)) :: rat"
  have p: "0 < ?p"
    by (rule pow2_pos)
  have "\<bar>?m - x / ?p\<bar> * ?p \<le> (1 / 2) * ?p"
    using round_half_even_error [of "x / ?p"] p by (intro mult_right_mono) simp_all
  moreover have "\<bar>?m - x / ?p\<bar> * ?p = \<bar>?m * ?p - x\<bar>"
  proof -
    have "\<bar>?m - x / ?p\<bar> * ?p = \<bar>(?m - x / ?p) * ?p\<bar>"
      using p by (simp add: abs_mult)
    also have "(?m - x / ?p) * ?p = ?m * ?p - x"
      using p by (simp add: field_simps)
    finally show ?thesis .
  qed
  ultimately show ?thesis
    using fl_grid [OF assms] by simp
qed

lemma pow2_le:
  assumes "e \<le> - int k"
  shows "pow2 e \<le> 1 / 2 ^ k"
proof (cases "0 \<le> e")
  case True
  then have "e = 0" "k = 0"
    using assms by simp_all
  then show ?thesis
    by (simp add: pow2_def)
next
  case False
  then have "k \<le> nat (- e)"
    using assms by simp
  then have "(2::rat) ^ k \<le> 2 ^ nat (- e)"
    by (intro power_increasing) simp_all
  then have "1 / (2::rat) ^ nat (- e) \<le> 1 / 2 ^ k"
    by (intro divide_left_mono) simp_all
  then show ?thesis
    using False by (simp add: pow2_def)
qed

lemma binade_less:
  assumes "0 < x" and "x < 2 ^ Suc j"
  shows "binade x \<le> int j"
proof (cases "1 \<le> x")
  case True
  then show ?thesis
    using binade_ge1(2) [OF True assms(2)] by simp
next
  case False
  then show ?thesis
    using binade_lt1 [of x] assms(1) by simp
qed

text \<open>Below \<open>2^(j+1)\<close> the rounding error is at most \<open>2^(j-53)\<close>.\<close>

lemma fl_error_bound:
  assumes "0 < x" and "x < 2 ^ Suc j" and "j \<le> 52"
  shows "\<bar>fl x - x\<bar> \<le> 1 / 2 ^ (53 - j)"
proof -
  have "binade x - 52 \<le> - int (52 - j)"
    using binade_less [OF assms(1,2)] assms(3) by simp
  then have "pow2 (binade x - 52) \<le> 1 / 2 ^ (52 - j)"
    by (rule pow2_le)
  then have "pow2 (binade x - 52) / 2 \<le> 1 / 2 ^ (52 - j) / 2"
    by simp
  also have "\<dots> = 1 / 2 ^ Suc (52 - j)"
    by simp
  also have "Suc (52 - j) = 53 - j"
    using assms(3) by simp
  finally show ?thesis
    using fl_error [OF assms(1)] by linarith
qed

lemma floor_fl_interior:
  assumes "0 < x" and "x < 2 ^ 23"
    and "of_int N + 1 / 2 ^ 30 \<le> x" and "x \<le> of_int N + 1 - 1 / 2 ^ 30"
  shows "\<lfloor>fl x\<rfloor> = N"
proof -
  have "\<bar>fl x - x\<bar> \<le> 1 / 2 ^ (53 - 22)"
    using assms(1,2) by (intro fl_error_bound) simp_all
  then have e: "\<bar>fl x - x\<bar> \<le> 1 / 2 ^ 31"
    by simp
  have "(1::rat) / 2 ^ 31 < 1 / 2 ^ 30"
    by simp
  then have "of_int N \<le> fl x" "fl x < of_int N + 1"
    using e assms(3,4) by linarith+
  then show ?thesis
    by (rule floor_unique)
qed

lemma fl_near_int:
  assumes "1 \<le> x" and "x < 2 ^ 23" and "\<bar>of_int N - x\<bar> \<le> x / 2 ^ 54"
  shows "fl x = of_int N"
proof -
  let ?b = "binade x"
  let ?k = "nat (52 - ?b)"
  have pos: "0 < x"
    using assms(1) by linarith
  have b: "0 \<le> ?b" "?b < 23" and up: "x < 2 ^ nat (?b + 1)"
    using binade_ge1 [OF assms(1,2)] by simp_all
  have p: "pow2 (?b - 52) = 1 / 2 ^ ?k"
    using b by (simp add: pow2_def)
  have kk: "nat (?b + 1) + ?k = 53"
    using b by simp
  let ?m = "round_half_even (x / pow2 (?b - 52))"
  have g: "fl x = of_int ?m / 2 ^ ?k"
    using fl_grid [OF pos] p by simp
  define q :: rat where "q = 1 / 2 ^ ?k"
  have e1: "\<bar>fl x - x\<bar> \<le> q / 2"
    using fl_error [OF pos] p by (simp add: q_def)
  have "(2::rat) ^ nat (?b + 1) * 2 ^ ?k = 2 ^ 53"
    using kk by (simp add: power_add [symmetric])
  then have "(2::rat) ^ nat (?b + 1) = 2 ^ 53 / 2 ^ ?k"
    by (simp add: field_simps)
  then have "x / 2 ^ 54 < 2 ^ 53 / 2 ^ ?k / 2 ^ 54"
    using up by (simp add: divide_strict_right_mono)
  also have "\<dots> = q / 2"
    by (simp add: q_def)
  finally have e2: "\<bar>of_int N - x\<bar> < q / 2"
    using assms(3) by linarith
  have "\<bar>fl x - of_int N\<bar> < q"
    using e1 e2 by linarith
  moreover have qpos: "0 < q"
    by (simp add: q_def)
  moreover have "fl x - of_int N = (of_int (?m - N * 2 ^ ?k) :: rat) * q"
    unfolding g q_def by (simp add: field_simps)
  ultimately have "\<bar>of_int (?m - N * 2 ^ ?k) :: rat\<bar> * q < 1 * q"
    by (simp add: abs_mult)
  then have "\<bar>of_int (?m - N * 2 ^ ?k) :: rat\<bar> < 1"
    using qpos by (simp only: mult_less_cancel_right_pos)
  then have "\<bar>?m - N * 2 ^ ?k\<bar> < 1"
    by (metis of_int_abs of_int_less_1_iff)
  then have "?m = N * 2 ^ ?k"
    by linarith
  then show ?thesis
    using g by simp
qed

section \<open>The conversion factors in exact arithmetic\<close>

text \<open>
  A rounding is evaluated from its exponent and its rounded significand, each checked by
  the simplifier. The three literals are the binary64 values nearest to 0.045, 0.04 and
  0.762.
\<close>

lemma fl_cert:
  assumes "0 < x" and "binade x = b" and "round_half_even (x / pow2 (b - 52)) = m"
  shows "fl x = of_int m * pow2 (b - 52)"
  using assms by (simp add: fl_def Let_def)

lemmas num_eval = binade_def pow2_def round_half_even_def Let_def bitlen.simps floor_rat_numeral

lemma lit_0_045_value: "lit_0_045 = 3242591731706757 / 2 ^ 56"
proof -
  have "fl (45 / 1000) = of_int 6485183463413514 * pow2 (- 5 - 52)"
    by (rule fl_cert) (simp_all add: num_eval)
  then show ?thesis
    by (simp add: lit_0_045_def pow2_def)
qed

lemma lit_0_04_value: "lit_0_04 = 5764607523034235 / 2 ^ 57"
proof -
  have "fl (4 / 100) = of_int 5764607523034235 * pow2 (- 5 - 52)"
    by (rule fl_cert) (simp_all add: num_eval)
  then show ?thesis
    by (simp add: lit_0_04_def pow2_def)
qed

lemma lit_0_762_value: "lit_0_762 = 1715871458028159 / 2 ^ 51"
proof -
  have "fl (762 / 1000) = of_int 6863485832112636 * pow2 (- 1 - 52)"
    by (rule fl_cert) (simp_all add: num_eval)
  then show ?thesis
    by (simp add: lit_0_762_def pow2_def)
qed

lemma cal_of_exact:
  assumes "0 \<le> s" and "s < 2 ^ 27"
  shows "cal_of s = (9 * s) div 200"
proof (cases "s = 0")
  case True
  then show ?thesis
    by (simp add: cal_of_def js_mul_def Math_floor_def fl_def)
next
  case False
  then have spos: "0 < s"
    using assms(1) by simp
  define N where "N = (9 * s) div 200"
  define r where "r = (9 * s) mod 200"
  define x :: rat where "x = of_int s * (3242591731706757 / 2 ^ 56)"
  have eq: "9 * s = 200 * N + r" and r: "0 \<le> r" "r < 200"
    by (simp_all add: N_def r_def)
  have S: "9 * (of_int s :: rat) = 200 * of_int N + of_int r"
    using eq by (metis of_int_add of_int_mult of_int_numeral)
  have s0: "0 < (of_int s :: rat)" and s1: "(of_int s :: rat) < 2 ^ 27"
    using spos assms(2) by (simp_all add: of_int_less_numeral_power_cancel_iff)
  have r0: "0 \<le> (of_int r :: rat)" and r1: "(of_int r :: rat) \<le> 199"
    using r by simp_all
  have xpos: "0 < x" and xlt: "x < 2 ^ 23"
    using s0 s1 by (simp_all add: x_def)
  have c: "cal_of s = \<lfloor>fl x\<rfloor>"
    by (simp add: cal_of_def js_mul_def Math_floor_def lit_0_045_value x_def)
  show ?thesis
  proof (cases "r = 0")
    case True
    then have "0 < N"
      using eq spos by linarith
    then have "200 \<le> 9 * s"
      using eq True by linarith
    then have "23 \<le> s"
      by linarith
    then have "23 \<le> (of_int s :: rat)"
      by simp
    then have x1: "1 \<le> x"
      by (simp add: x_def)
    have "\<bar>of_int N - x\<bar> \<le> x / 2 ^ 54"
      using S s0 True by (simp add: x_def abs_le_iff)
    then have "fl x = of_int N"
      using x1 xlt by (intro fl_near_int)
    then show ?thesis
      using c by (simp add: N_def)
  next
    case False
    then have "1 \<le> r"
      using r by simp
    then have r2: "1 \<le> (of_int r :: rat)"
      by simp
    have "of_int N + 1 / 2 ^ 30 \<le> x" and "x \<le> of_int N + 1 - 1 / 2 ^ 30"
      using S s0 s1 r1 r2 by (simp_all add: x_def)
    then have "\<lfloor>fl x\<rfloor> = N"
      using xpos xlt by (intro floor_fl_interior)
    then show ?thesis
      using c by (simp add: N_def)
  qed
qed

lemma cal_of_crashChanges_exact:
  assumes "0 \<le> s" and "s < 2 ^ 27"
  shows "cal_of_crashChanges s = s div 25"
proof (cases "s = 0")
  case True
  then show ?thesis
    by (simp add: cal_of_crashChanges_def js_mul_def Math_floor_def fl_def)
next
  case False
  then have spos: "0 < s"
    using assms(1) by simp
  define N where "N = s div 25"
  define r where "r = s mod 25"
  define x :: rat where "x = of_int s * (5764607523034235 / 2 ^ 57)"
  have eq: "s = 25 * N + r" and r: "0 \<le> r" "r < 25"
    by (simp_all add: N_def r_def)
  have S: "(of_int s :: rat) = 25 * of_int N + of_int r"
    using eq by (metis of_int_add of_int_mult of_int_numeral)
  have s0: "0 < (of_int s :: rat)" and s1: "(of_int s :: rat) < 2 ^ 27"
    using spos assms(2) by (simp_all add: of_int_less_numeral_power_cancel_iff)
  have r0: "0 \<le> (of_int r :: rat)" and r1: "(of_int r :: rat) \<le> 24"
    using r by simp_all
  have xpos: "0 < x" and xlt: "x < 2 ^ 23"
    using s0 s1 by (simp_all add: x_def)
  have c: "cal_of_crashChanges s = \<lfloor>fl x\<rfloor>"
    by (simp add: cal_of_crashChanges_def js_mul_def Math_floor_def lit_0_04_value x_def)
  show ?thesis
  proof (cases "r = 0")
    case True
    then have "0 < N"
      using eq spos by linarith
    then have "25 \<le> s"
      using eq True by linarith
    then have "25 \<le> (of_int s :: rat)"
      by simp
    then have x1: "1 \<le> x"
      by (simp add: x_def)
    have "\<bar>of_int N - x\<bar> \<le> x / 2 ^ 54"
      using S s0 True by (simp add: x_def abs_le_iff)
    then have "fl x = of_int N"
      using x1 xlt by (intro fl_near_int)
    then show ?thesis
      using c by (simp add: N_def)
  next
    case False
    then have "1 \<le> r"
      using r by simp
    then have r2: "1 \<le> (of_int r :: rat)"
      by simp
    have "of_int N + 1 / 2 ^ 30 \<le> x" and "x \<le> of_int N + 1 - 1 / 2 ^ 30"
      using S s0 s1 r1 r2 by (simp_all add: x_def)
    then have "\<lfloor>fl x\<rfloor> = N"
      using xpos xlt by (intro floor_fl_interior)
    then show ?thesis
      using c by (simp add: N_def)
  qed
qed

lemma dist_of_nearest:
  assumes "0 \<le> s" and "s < 2 ^ 27"
  shows "\<bar>5000 * dist_of s - 381 * s\<bar> \<le> 2500"
proof (cases "s = 0")
  case True
  have "\<lfloor>(1 :: rat) / 2\<rfloor> = 0"
    by (rule floor_unique) simp_all
  then show ?thesis
    using True by (simp add: dist_of_def js_mul_def js_div_def toFixed2_def fl_def)
next
  case False
  then have spos: "1 \<le> s"
    using assms(1) by simp
  define x1 :: rat where "x1 = of_int s * (1715871458028159 / 2 ^ 51)"
  define y1 where "y1 = fl x1"
  define x2 where "x2 = y1 / 1000"
  define y2 where "y2 = fl x2"
  define n where "n = \<lfloor>y2 * 100 + 1 / 2\<rfloor>"
  have d: "dist_of s = n"
    by (simp add: dist_of_def js_mul_def js_div_def toFixed2_def lit_0_762_value
        x1_def y1_def x2_def y2_def n_def)
  have s0: "1 \<le> (of_int s :: rat)" and s1: "(of_int s :: rat) < 2 ^ 27"
    using spos assms(2) by (simp_all add: of_int_less_numeral_power_cancel_iff)
  have x1pos: "0 < x1" and x1lt: "x1 < 2 ^ Suc 26" and x1lo: "1 / 2 \<le> x1"
    using s0 s1 by (simp_all add: x1_def)
  have "\<bar>y1 - x1\<bar> \<le> 1 / 2 ^ (53 - 26)"
    unfolding y1_def using x1pos x1lt by (intro fl_error_bound) simp_all
  then have "\<bar>y1 - x1\<bar> \<le> 1 / 134217728"
    by simp
  then have e1: "y1 \<le> x1 + 1 / 134217728" "x1 - 1 / 134217728 \<le> y1"
    by linarith+
  have x1hi: "x1 < 2 ^ 27"
    using x1lt by simp
  have x2pos: "0 < x2" and x2lt: "x2 < 2 ^ Suc 17"
    using e1 x1lo x1hi by (simp_all add: x2_def)
  have "\<bar>y2 - x2\<bar> \<le> 1 / 2 ^ (53 - 17)"
    unfolding y2_def using x2pos x2lt by (intro fl_error_bound) simp_all
  then have "\<bar>y2 - x2\<bar> \<le> 1 / 68719476736"
    by simp
  then have e2: "y2 \<le> x2 + 1 / 68719476736" "x2 - 1 / 68719476736 \<le> y2"
    by linarith+
  have n1: "of_int n \<le> y2 * 100 + 1 / 2" and n2: "y2 * 100 + 1 / 2 < of_int n + 1"
    unfolding n_def by linarith+
  have x2e: "1000 * x2 = y1"
    by (simp add: x2_def)
  have x1e: "2 ^ 51 * x1 = of_int s * 1715871458028159"
    by (simp add: x1_def)
  have up: "5000 * of_int n - 381 * (of_int s :: rat) < 2501"
    using n1 e1 e2 x2e x1e s0 s1 by simp
  have lo: "- 2501 < 5000 * of_int n - 381 * (of_int s :: rat)"
    using n2 e1 e2 x2e x1e s0 s1 by simp
  have "(of_int (5000 * n - 381 * s) :: rat) < of_int 2501"
    using up by simp
  then have up': "5000 * n - 381 * s < 2501"
    by (simp only: of_int_less_iff)
  have "(of_int (- 2501) :: rat) < of_int (5000 * n - 381 * s)"
    using lo by simp
  then have lo': "- 2501 < 5000 * n - 381 * s"
    by (simp only: of_int_less_iff)
  show ?thesis
    using up' lo' d by simp
qed

text \<open>A decoded count is a 24-bit number.\<close>

lemma decodeStepCount_range:
  assumes "decodeStepCount data = Inr s"
  shows "0 \<le> s \<and> s < 2 ^ 24"
proof (cases "5 \<le> length data")
  case True
  have "s = uint (data ! 1) + 256 * uint (data ! 2) + 65536 * uint (data ! 3)"
    using assms decodeStepCount_value [OF True] by simp
  then show ?thesis
    using uint_byte_bounds [of "data ! 1"] uint_byte_bounds [of "data ! 2"]
      uint_byte_bounds [of "data ! 3"]
    by simp
next
  case False
  then have "length data = 4 \<or> length data < 4"
    by linarith
  then show ?thesis
    using assms decodeStepCount_four [of data] decodeStepCount_short [of data] by auto
qed

text \<open>
  At an exact tie the binary rounding decides: 7500 steps are 5.715 km, and the product
  and quotient computed in binary64 fall just below it.
\<close>

lemma dist_of_7500: "dist_of 7500 = 571"
proof -
  have "fl (7500 * (1715871458028159 / 2 ^ 51)) = of_int 6283708952739840 * pow2 (12 - 52)"
    by (rule fl_cert) (simp_all add: num_eval)
  then have m: "js_mul 7500 lit_0_762 = 5715"
    by (simp add: js_mul_def lit_0_762_value pow2_def)
  have "fl (5715 / 1000) = of_int 6434517967605596 * pow2 (2 - 52)"
    by (rule fl_cert) (simp_all add: num_eval)
  then have d: "js_div 5715 1000 = 1608629491901399 / 2 ^ 48"
    by (simp add: js_div_def pow2_def)
  show ?thesis
    by (simp add: dist_of_def m d toFixed2_def floor_rat_numeral)
qed

section \<open>The daily metrics of a step reading\<close>

text \<open>
  Claim C5, as the sources have it. In the "weekly reset" variant an accepted reading
  \<open>s\<close> puts into the daily record the steps \<open>s\<close>, the calories
  \<open>Math.floor(s * 0.045)\<close> and the distance \<open>parseFloat(((s * 0.762) / 1000).toFixed(2))\<close>.
  Computed in binary64, the calories are exactly the integer part of \<open>9 s / 200\<close>, and
  the distance is a number of hundredths within one half of \<open>0.0762 s\<close>: \<open>s \<times> 0.000762\<close>
  rounded to two decimals, the direction at an exact tie left to the binary rounding.
  5000 steps give 225 and 3.81. The "crash changes" variant has the same distance and
  another calorie factor, \<open>Math.floor(count * 0.04)\<close>, the integer part of \<open>s / 25\<close>:
  5000 steps give 200 there.
\<close>

theorem C5_daily_metrics:
  "(deviceRef st \<and> isConnected t \<and> readStepValue t = Some data
      \<and> decodeStepCount data = Inr s \<and> 0 < s \<longrightarrow>
      steps (dailyRecords (stepPoll_weeklyReset t st)) = s
      \<and> calories (dailyRecords (stepPoll_weeklyReset t st))
          = Math_floor (js_mul (of_int s) lit_0_045)
      \<and> calories (dailyRecords (stepPoll_weeklyReset t st)) = (9 * s) div 200
      \<and> distance (dailyRecords (stepPoll_weeklyReset t st))
          = toFixed2 (js_div (js_mul (of_int s) lit_0_762) 1000)
      \<and> \<bar>5000 * distance (dailyRecords (stepPoll_weeklyReset t st)) - 381 * s\<bar> \<le> 2500)
   \<and> (primary t = Characteristic (Some data) \<and> 4 \<le> length data
      \<and> decodeStepCount data = Inr s \<longrightarrow>
      steps (dailyRecords (stepPoll_crashChanges t st)) = s
      \<and> calories (dailyRecords (stepPoll_crashChanges t st))
          = Math_floor (js_mul (of_int s) lit_0_04)
      \<and> calories (dailyRecords (stepPoll_crashChanges t st)) = s div 25
      \<and> distance (dailyRecords (stepPoll_crashChanges t st))
          = toFixed2 (js_div (js_mul (of_int s) lit_0_762) 1000)
      \<and> \<bar>5000 * distance (dailyRecords (stepPoll_crashChanges t st)) - 381 * s\<bar> \<le> 2500)
   \<and> cal_of 5000 = 225 \<and> dist_of 5000 = 381 \<and> cal_of_crashChanges 5000 = 200"
proof (intro conjI impI)
  assume a: "deviceRef st \<and> isConnected t \<and> readStepValue t = Some data
             \<and> decodeStepCount data = Inr s \<and> 0 < s"
  then have rng: "0 \<le> s" "s < 2 ^ 27"
    using decodeStepCount_range [of data s] by simp_all
  have e: "dailyRecords (stepPoll_weeklyReset t st)
        = (dailyRecords st)\<lparr>steps := s, distance := dist_of s, calories := cal_of s\<rparr>"
    using a stepPoll_weeklyReset_decoded [of st t data s] by simp
  show "steps (dailyRecords (stepPoll_weeklyReset t st)) = s"
    by (simp add: e)
  show "calories (dailyRecords (stepPoll_weeklyReset t st))
        = Math_floor (js_mul (of_int s) lit_0_045)"
    by (simp add: e cal_of_def)
  show "calories (dailyRecords (stepPoll_weeklyReset t st)) = (9 * s) div 200"
    using cal_of_exact [OF rng] by (simp add: e)
  show "distance (dailyRecords (stepPoll_weeklyReset t st))
        = toFixed2 (js_div (js_mul (of_int s) lit_0_762) 1000)"
    by (simp add: e dist_of_def)
  show "\<bar>5000 * distance (dailyRecords (stepPoll_weeklyReset t st)) - 381 * s\<bar> \<le> 2500"
    using dist_of_nearest [OF rng] by (simp add: e)
next
  assume a: "primary t = Characteristic (Some data) \<and> 4 \<le> length data
             \<and> decodeStepCount data = Inr s"
  then have rng: "0 \<le> s" "s < 2 ^ 27"
    using decodeStepCount_range [of data s] by simp_all
  have e: "dailyRecords (stepPoll_crashChanges t st)
        = (dailyRecords st)
            \<lparr>steps := s, distance := dist_of s, calories := cal_of_crashChanges s\<rparr>"
    using a stepPoll_crashChanges_decoded [of t data s st] by simp
  show "steps (dailyRecords (stepPoll_crashChanges t st)) = s"
    by (simp add: e)
  show "calories (dailyRecords (stepPoll_crashChanges t st))
        = Math_floor (js_mul (of_int s) lit_0_04)"
    by (simp add: e cal_of_crashChanges_def)
  show "calories (dailyRecords (stepPoll_crashChanges t st)) = s div 25"
    using cal_of_crashChanges_exact [OF rng] by (simp add: e)
  show "distance (dailyRecords (stepPoll_crashChanges t st))
        = toFixed2 (js_div (js_mul (of_int s) lit_0_762) 1000)"
    by (simp add: e dist_of_def)
  show "\<bar>5000 * distance (dailyRecords (stepPoll_crashChanges t st)) - 381 * s\<bar> \<le> 2500"
    using dist_of_nearest [OF rng] by (simp add: e)
next
  show "cal_of 5000 = 225"
    using cal_of_exact [of 5000] by simp
  show "dist_of 5000 = 381"
    using dist_of_nearest [of 5000] by simp
  show "cal_of_crashChanges 5000 = 200"
    using cal_of_crashChanges_exact [of 5000] by simp
qed

theorem C5_daily_metrics_witness:
  "steps (dailyRecords
      (stepPoll_weeklyReset (tickWith [0x00, 0x88, 0x13, 0x00, 0x00]) walked)) = 5000
   \<and> calories (dailyRecords
      (stepPoll_weeklyReset (tickWith [0x00, 0x88, 0x13, 0x00, 0x00]) walked)) = 225
   \<and> calories (dailyRecords
      (stepPoll_crashChanges (tickWith [0x00, 0x88, 0x13, 0x00, 0x00]) walked)) = 200"
proof -
  have w: "deviceRef walked" "isConnected (tickWith [0x00, 0x88, 0x13, 0x00, 0x00])"
    "primary (tickWith [0x00, 0x88, 0x13, 0x00, 0x00])
       = Characteristic (Some [0x00, 0x88, 0x13, 0x00, 0x00])"
    by (simp_all add: walked_def connectToDevice_def tickWith_def)
  have r: "readStepValue (tickWith [0x00, 0x88, 0x13, 0x00, 0x00])
           = Some [0x00, 0x88, 0x13, 0x00, 0x00]"
    by (rule readStepValue_tickWith) simp
  show ?thesis
    using w r decodeStepCount_5000
      C5_daily_metrics [of walked "tickWith [0x00, 0x88, 0x13, 0x00, 0x00]"
        "[0x00, 0x88, 0x13, 0x00, 0x00]" 5000]
    by simp
qed

text \<open>
  The claim as stated fails on the "crash changes" poll: a reading of 5000 steps gives
  200 calories there, not 225.
\<close>

theorem C5_daily_metrics_counterexample:
  "decodeStepCount [0x00, 0x88, 0x13, 0x00, 0x00] = Inr 5000
   \<and> calories (dailyRecords
        (stepPoll_crashChanges (tickWith [0x00, 0x88, 0x13, 0x00, 0x00]) walked)) = 200"
proof -
  have "stepPoll_crashChanges (tickWith [0x00, 0x88, 0x13, 0x00, 0x00]) walked
        = walked\<lparr>bandSteps := 5000,
                 dailyRecords := (dailyRecords walked)
                   \<lparr>steps := 5000, distance := dist_of 5000,
                    calories := cal_of_crashChanges 5000\<rparr>\<rparr>"
    by (rule stepPoll_crashChanges_decoded [of _ "[0x00, 0x88, 0x13, 0x00, 0x00]"])
      (simp_all add: tickWith_def decodeStepCount_5000)
  moreover have "cal_of_crashChanges 5000 = 200"
    using cal_of_crashChanges_exact [of 5000] by simp
  ultimately show ?thesis
    by (simp add: decodeStepCount_5000)
qed

end
